theory Spec2Isabelle
  imports Main "HOL-Library.Sublist" "HOL-Library.Word"
begin

section \<open>Strings\<close>

text \<open>
  A Go \<^verbatim>\<open>string\<close> is a sequence of bytes, here a \<^typ>\<open>string\<close>. The functions of
  package \<^verbatim>\<open>strings\<close> that \<^verbatim>\<open>parser.go\<close> calls are written out. \<^verbatim>\<open>strings.ToLower\<close>
  is modelled on ASCII: the letters A to Z are mapped to a to z and every other byte is
  kept (the patterns of the table are written over ASCII letters, digits and punctuation).
  The model is exact for a text of ASCII bytes. On other bytes the library differs: it
  folds the letters of all of Unicode and rewrites a byte sequence that is not valid
  UTF-8, which is left out here.
\<close>

definition toLowerChar :: "char \<Rightarrow> char" where
  "toLowerChar ch =
     (if (65::nat) \<le> of_char ch \<and> of_char ch \<le> (90::nat)
      then char_of (of_char ch + (32::nat)) else ch)"

definition ToLower :: "string \<Rightarrow> string" where
  "ToLower s = map toLowerChar s"

definition HasPrefix :: "string \<Rightarrow> string \<Rightarrow> bool" where
  "HasPrefix s pre = (take (length pre) s = pre)"

definition HasSuffix :: "string \<Rightarrow> string \<Rightarrow> bool" where
  "HasSuffix s suf = (length suf \<le> length s \<and> drop (length s - length suf) s = suf)"

definition TrimPrefix :: "string \<Rightarrow> string \<Rightarrow> string" where
  "TrimPrefix s pre = (if HasPrefix s pre then drop (length pre) s else s)"

definition TrimSuffix :: "string \<Rightarrow> string \<Rightarrow> string" where
  "TrimSuffix s suf = (if HasSuffix s suf then take (length s - length suf) s else s)"

definition TrimRight :: "string \<Rightarrow> string \<Rightarrow> string" where
  "TrimRight s cutset = rev (dropWhile (\<lambda>ch. ch \<in> set cutset) (rev s))"

text \<open>
  \<^verbatim>\<open>strings.Index(s, sub)\<close>: the offset of the first occurrence of \<open>sub\<close>;
  \<open>None\<close> stands for Go's \<open>-1\<close>.
\<close>

fun Index :: "string \<Rightarrow> string \<Rightarrow> nat option" where
  "Index [] sub = (if sub = [] then Some 0 else None)"
| "Index (ch # s) sub =
     (if HasPrefix (ch # s) sub then Some 0 else map_option Suc (Index s sub))"

text \<open>
  \<^verbatim>\<open>strings.Split(s, sep)\<close> for a separator of one byte, the only use in the source
  (\<^verbatim>\<open>strings.Split(cleanMatch, "@")\<close>): the pieces between the separators, at least one.
\<close>

fun SplitByte :: "string \<Rightarrow> char \<Rightarrow> string list" where
  "SplitByte [] sep = [[]]"
| "SplitByte (ch # s) sep =
     (if ch = sep then [] # SplitByte s sep
      else (case SplitByte s sep of
              [] \<Rightarrow> [[ch]]
            | w # ws \<Rightarrow> (ch # w) # ws))"

text \<open>The slice expression \<^verbatim>\<open>s[i:j]\<close> of a string, for \<open>i \<le> j \<le> len(s)\<close>.\<close>

definition substring :: "string \<Rightarrow> nat \<Rightarrow> nat \<Rightarrow> string" where
  "substring s i j = take (j - i) (drop i s)"


section \<open>Regular expressions\<close>

text \<open>
  Package \<^verbatim>\<open>regexp\<close> is a library of the Go distribution. The part of its syntax
  that the pattern table uses is modelled from its documentation: character classes,
  concatenation, alternation, greedy counted repetition, the ASCII word boundary
  \<^verbatim>\<open>\b\<close>, the anchors \<^verbatim>\<open>^\<close> and \<^verbatim>\<open>$\<close> (without the multi-line flag: beginning and
  end of the text) and the flag \<^verbatim>\<open>(?i)\<close>. Capture groups do not change what is
  matched and are left out. Matching is leftmost-first: among the matches that begin
  earliest, the one a backtracking search finds first.

  The model matches bytes, and \<^verbatim>\<open>(?i)\<close> folds the letters A to Z and a to z. It is
  exact for a text of ASCII bytes. On other bytes the library differs: it matches UTF-8
  code points, so that \<^verbatim>\<open>.\<close> and a negated class consume a whole code point, and under
  \<^verbatim>\<open>(?i)\<close> the letters k and s also match U+212A and U+017F.
\<close>

datatype regexp =
    Eps
  | Cls bool "(char \<times> char) list"
  | Seq regexp regexp
  | Alt regexp regexp
  | Rep regexp nat "nat option"
  | WordB
  | BOT
  | EOT
  | Fold regexp

definition in_ranges :: "(char \<times> char) list \<Rightarrow> char \<Rightarrow> bool" where
  "in_ranges rs ch =
     list_ex (\<lambda>r. (of_char (fst r) :: nat) \<le> of_char ch \<and> (of_char ch :: nat) \<le> of_char (snd r)) rs"

definition swapCase :: "char \<Rightarrow> char" where
  "swapCase ch =
     (if (65::nat) \<le> of_char ch \<and> of_char ch \<le> (90::nat) then char_of (of_char ch + (32::nat))
      else if (97::nat) \<le> of_char ch \<and> of_char ch \<le> (122::nat) then char_of (of_char ch - (32::nat))
      else ch)"

text \<open>
  \<open>Cls neg rs\<close> is the class \<^verbatim>\<open>[...]\<close> of the ranges \<open>rs\<close>, negated (\<^verbatim>\<open>[^...]\<close>) when
  \<open>neg\<close> holds. Under \<^verbatim>\<open>(?i)\<close> a class also holds the other case of its letters, and is
  negated after that.
\<close>

definition cls_match :: "bool \<Rightarrow> bool \<Rightarrow> (char \<times> char) list \<Rightarrow> char \<Rightarrow> bool" where
  "cls_match ci neg rs ch =
     ((in_ranges rs ch \<or> (ci \<and> in_ranges rs (swapCase ch))) \<noteq> neg)"

definition isWordChar :: "char \<Rightarrow> bool" where
  "isWordChar ch =
     in_ranges [(CHR ''0'', CHR ''9''), (CHR ''A'', CHR ''Z''), (CHR ''_'', CHR ''_''),
                (CHR ''a'', CHR ''z'')] ch"

text \<open>
  A position in the text is the byte before it (\<open>None\<close> at the beginning of the text) and
  the rest of the text.
\<close>

definition prevAfter :: "char option \<Rightarrow> string \<Rightarrow> nat \<Rightarrow> char option" where
  "prevAfter p s n = (if n = 0 then p else Some (s ! (n - 1)))"

definition atWordBoundary :: "char option \<Rightarrow> string \<Rightarrow> bool" where
  "atWordBoundary p s =
     ((case p of None \<Rightarrow> False | Some a \<Rightarrow> isWordChar a) \<noteq>
      (case s of [] \<Rightarrow> False | b # _ \<Rightarrow> isWordChar b))"

text \<open>
  \<open>ends ci re p s\<close> lists the lengths of the prefixes of \<open>s\<close> that \<open>re\<close> matches at
  the position \<open>(p, s)\<close>, in the order a backtracking search tries them: a greedy
  repetition tries one more round before it stops, an alternation its left branch first.
  \<open>rep\<close> is the repetition \<^verbatim>\<open>r{lo,hi}\<close> (\<open>hi = None\<close>: no upper bound); its second
  argument bounds the rounds by the length of the rest of the text plus \<open>lo\<close>, which is
  as many as can differ (a round that matches the empty string counts only towards
  \<open>lo\<close>).
\<close>

primrec rep ::
  "(char option \<Rightarrow> string \<Rightarrow> nat list) \<Rightarrow> nat \<Rightarrow> nat \<Rightarrow> nat option \<Rightarrow>
   char option \<Rightarrow> string \<Rightarrow> nat list" where
  "rep f 0 lo hi p s = (if lo = 0 then [0] else [])"
| "rep f (Suc k) lo hi p s =
     (if hi = Some 0 then []
      else concat (map (\<lambda>n. if n = 0 \<and> lo = 0 then []
                              else map ((+) n)
                                     (rep f k (lo - 1) (map_option (\<lambda>h. h - 1) hi)
                                        (prevAfter p s n) (drop n s)))
                       (f p s)))
     @ (if lo = 0 then [0] else [])"

fun ends :: "bool \<Rightarrow> regexp \<Rightarrow> char option \<Rightarrow> string \<Rightarrow> nat list" where
  "ends ci Eps p s = [0]"
| "ends ci (Cls neg rs) p s =
     (case s of [] \<Rightarrow> [] | ch # _ \<Rightarrow> if cls_match ci neg rs ch then [1] else [])"
| "ends ci (Seq r1 r2) p s =
     concat (map (\<lambda>n. map ((+) n) (ends ci r2 (prevAfter p s n) (drop n s))) (ends ci r1 p s))"
| "ends ci (Alt r1 r2) p s = ends ci r1 p s @ ends ci r2 p s"
| "ends ci (Rep r lo hi) p s = rep (ends ci r) (length s + lo) lo hi p s"
| "ends ci WordB p s = (if atWordBoundary p s then [0] else [])"
| "ends ci BOT p s = (if p = None then [0] else [])"
| "ends ci EOT p s = (if s = [] then [0] else [])"
| "ends ci (Fold r) p s = ends True r p s"

text \<open>
  The leftmost match at or after a position: \<open>doExecute re p s pos\<close> searches the rest
  \<open>s\<close> of the text, which starts at offset \<open>pos\<close>, and returns the offsets
  \<open>(begin, end)\<close> of the match.
\<close>

fun doExecute :: "regexp \<Rightarrow> char option \<Rightarrow> string \<Rightarrow> nat \<Rightarrow> (nat \<times> nat) option" where
  "doExecute re p [] pos =
     (case ends False re p [] of [] \<Rightarrow> None | n # _ \<Rightarrow> Some (pos, pos + n))"
| "doExecute re p (ch # s) pos =
     (case ends False re p (ch # s) of
        [] \<Rightarrow> doExecute re (Some ch) s (Suc pos)
      | n # _ \<Rightarrow> Some (pos, pos + n))"

definition executeAt :: "regexp \<Rightarrow> string \<Rightarrow> nat \<Rightarrow> (nat \<times> nat) option" where
  "executeAt re s pos =
     doExecute re (if pos = 0 then None else Some (s ! (pos - 1))) (drop pos s) pos"

text \<open>
  \<^verbatim>\<open>allMatches\<close> of package \<^verbatim>\<open>regexp\<close>, with no limit on the number of matches (the
  source passes \<open>-1\<close>): successive matches, each search starting where the last match
  ended; after an empty match the search moves on by one byte, and an empty match right
  after the previous match is not delivered. \<open>prevMatchEnd\<close> is \<open>None\<close> for Go's
  \<open>-1\<close>.
\<close>

function allMatches :: "regexp \<Rightarrow> string \<Rightarrow> nat \<Rightarrow> nat option \<Rightarrow> (nat \<times> nat) list" where
  "allMatches re s pos prevMatchEnd =
     (if length s < pos then []
      else (case executeAt re s pos of
              None \<Rightarrow> []
            | Some m \<Rightarrow>
                if snd m = pos
                then (if Some (fst m) = prevMatchEnd then [] else [m])
                       @ allMatches re s (pos + 1) (Some (snd m))
                else m # allMatches re s (snd m) (Some (snd m))))"
  by pat_completeness auto
termination
proof (relation "measure (\<lambda>(re, s, pos, prevMatchEnd). Suc (length s) - pos)")
  show "wf (measure (\<lambda>(re, s, pos, prevMatchEnd). Suc (length s) - pos))"
    by simp
next
  fix re :: regexp and s :: string and pos :: nat and prevMatchEnd :: "nat option"
    and m :: "nat \<times> nat"
  assume "\<not> length s < pos"
  then show "((re, s, pos + 1, Some (snd m)), (re, s, pos, prevMatchEnd))
        \<in> measure (\<lambda>(re, s, pos, prevMatchEnd). Suc (length s) - pos)"
    by simp
next
  fix re :: regexp and s :: string and pos :: nat and prevMatchEnd :: "nat option"
    and m :: "nat \<times> nat"
  assume le: "\<not> length s < pos" and ex: "executeAt re s pos = Some m" and ne: "snd m \<noteq> pos"
  have bounds: "pos \<le> fst m \<and> fst m \<le> snd m" if "doExecute re p t pos = Some m"
    for p t pos
    using that
  proof (induction t arbitrary: p pos)
    case Nil
    then show ?case by (auto split: list.splits)
  next
    case (Cons a t)
    then show ?case by (fastforce split: list.splits)
  qed
  from bounds [of _ _ pos] ex have "pos \<le> snd m"
    unfolding executeAt_def by fastforce
  with ne le show "((re, s, snd m, Some (snd m)), (re, s, pos, prevMatchEnd))
        \<in> measure (\<lambda>(re, s, pos, prevMatchEnd). Suc (length s) - pos)"
    by simp
qed

declare allMatches.simps [simp del]

definition FindAllStringIndex :: "regexp \<Rightarrow> string \<Rightarrow> (nat \<times> nat) list" where
  "FindAllStringIndex re s = allMatches re s 0 None"

definition FindAllString :: "regexp \<Rightarrow> string \<Rightarrow> string list" where
  "FindAllString re s = map (\<lambda>m. substring s (fst m) (snd m)) (FindAllStringIndex re s)"


section \<open>The data model\<close>

text \<open>
  \<^verbatim>\<open>map[string]struct{}\<close> is a set of strings; \<^verbatim>\<open>map[string]*regexp.Regexp\<close> is a
  partial map from kind names to patterns.
\<close>

record PrivateChecks =
  IgnorePrivateIPs :: bool
  IgnoredDomains :: "string set"
  IgnoredEmails :: "string set"

record Contextualizer =
  ID :: string
  Expressions :: "string \<rightharpoonup> regexp"
  Checks :: PrivateChecks

record Match =
  Value :: string
  Type :: string

text \<open>
  The packages \<^verbatim>\<open>net\<close>, \<^verbatim>\<open>net/url\<close> and \<^verbatim>\<open>golang.org/x/net/publicsuffix\<close> are
  libraries outside the repository. What the source calls of them is a parameter of the
  model:
  \<^item> \<open>net_ParseIP\<close> is \<^verbatim>\<open>net.ParseIP\<close>, \<open>None\<close> for Go's \<open>nil\<close>; an address is
    its byte slice;
  \<^item> \<open>IP_IsPrivate\<close>, \<open>IP_IsLoopback\<close> and \<open>IP_IsLinkLocalUnicast\<close> are the three
    methods of \<^verbatim>\<open>net.IP\<close>;
  \<^item> \<open>url_Parse_Hostname s\<close> is \<^verbatim>\<open>u.Hostname()\<close> of the \<^verbatim>\<open>u\<close> that
    \<^verbatim>\<open>url.Parse(s)\<close> returns, \<open>None\<close> when \<^verbatim>\<open>url.Parse\<close> returns an error;
  \<^item> \<open>publicsuffix_EffectiveTLDPlusOne\<close> is the function of that name, \<open>None\<close>
    when it returns an error.
\<close>

type_synonym IP = "8 word list"

record externals =
  net_ParseIP :: "string \<Rightarrow> IP option"
  IP_IsPrivate :: "IP \<Rightarrow> bool"
  IP_IsLoopback :: "IP \<Rightarrow> bool"
  IP_IsLinkLocalUnicast :: "IP \<Rightarrow> bool"
  url_Parse_Hostname :: "string \<Rightarrow> string option"
  publicsuffix_EffectiveTLDPlusOne :: "string \<Rightarrow> string option"


section \<open>The pattern table\<close>

text \<open>The patterns of \<^verbatim>\<open>NewContextualizer\<close>, each written under its source text.\<close>

definition chr :: "char \<Rightarrow> regexp" where
  "chr ch = Cls False [(ch, ch)]"

fun lit :: "string \<Rightarrow> regexp" where
  "lit [] = Eps"
| "lit [ch] = chr ch"
| "lit (ch # s) = Seq (chr ch) (lit s)"

definition plus :: "regexp \<Rightarrow> regexp" where
  "plus r = Rep r 1 None"

definition star :: "regexp \<Rightarrow> regexp" where
  "star r = Rep r 0 None"

definition opt :: "regexp \<Rightarrow> regexp" where
  "opt r = Rep r 0 (Some 1)"

definition times :: "regexp \<Rightarrow> nat \<Rightarrow> regexp" where
  "times r n = Rep r n (Some n)"

text \<open>\<^verbatim>\<open>\d\<close>, \<^verbatim>\<open>\s\<close> (tab, newline, form feed, carriage return, space) and \<^verbatim>\<open>\w\<close>.\<close>

definition digits :: "(char \<times> char) list" where
  "digits = [(CHR ''0'', CHR ''9'')]"

definition spaces :: "(char \<times> char) list" where
  "spaces = [(CHR 0x09, CHR 0x0A), (CHR 0x0C, CHR 0x0D), (CHR '' '', CHR '' '')]"

definition words :: "(char \<times> char) list" where
  "words = [(CHR ''0'', CHR ''9''), (CHR ''A'', CHR ''Z''), (CHR ''_'', CHR ''_''),
            (CHR ''a'', CHR ''z'')]"

text \<open>\<^verbatim>\<open>.\<close>: any byte but the newline.\<close>

definition anyChar :: regexp where
  "anyChar = Cls True [(CHR 0x0A, CHR 0x0A)]"

text \<open>\<^verbatim>\<open>(?i)\b([a-f\d]{n})\b\<close> for n = 32, 40, 64, 128.\<close>

definition hash_re :: "nat \<Rightarrow> regexp" where
  "hash_re n =
     Fold (Seq WordB (Seq (times (Cls False ((CHR ''a'', CHR ''f'') # digits)) n) WordB))"

text \<open>\<^verbatim>\<open>(\d{1,3}\.\d{1,3}\.\d{1,3}\.\d{1,3})\<close>\<close>

definition ipv4_re :: regexp where
  "ipv4_re =
     Seq (Rep (Cls False digits) 1 (Some 3)) (Seq (chr CHR ''.'')
    (Seq (Rep (Cls False digits) 1 (Some 3)) (Seq (chr CHR ''.'')
    (Seq (Rep (Cls False digits) 1 (Some 3)) (Seq (chr CHR ''.'')
         (Rep (Cls False digits) 1 (Some 3)))))))"

text \<open>\<^verbatim>\<open>(?i)([a-f\d]{4}(:[a-f\d]{4}){7})\<close>\<close>

definition ipv6_re :: regexp where
  "ipv6_re =
     Fold (Seq (times (Cls False ((CHR ''a'', CHR ''f'') # digits)) 4)
               (times (Seq (chr CHR '':'') (times (Cls False ((CHR ''a'', CHR ''f'') # digits)) 4)) 7))"

text \<open>\<^verbatim>\<open>(?i)([a-z0-9._%+-]+@[a-z0-9.-]+\.[a-z]{2,})\<close>\<close>

definition email_re :: regexp where
  "email_re =
     Fold (Seq (plus (Cls False [(CHR ''a'', CHR ''z''), (CHR ''0'', CHR ''9''), (CHR ''.'', CHR ''.''),
                                 (CHR ''_'', CHR ''_''), (CHR ''%'', CHR ''%''), (CHR ''+'', CHR ''+''),
                                 (CHR ''-'', CHR ''-'')]))
          (Seq (chr CHR ''@'')
          (Seq (plus (Cls False [(CHR ''a'', CHR ''z''), (CHR ''0'', CHR ''9''), (CHR ''.'', CHR ''.''),
                                 (CHR ''-'', CHR ''-'')]))
          (Seq (chr CHR ''.'')
               (Rep (Cls False [(CHR ''a'', CHR ''z'')]) 2 None)))))"

text \<open>\<^verbatim>\<open>(?i)((https?|ftp):\/\/[^\s/$.?#].[^\s]*)\<close>\<close>

definition url_re :: regexp where
  "url_re =
     Fold (Seq (Alt (Seq (lit ''http'') (opt (chr CHR ''s''))) (lit ''ftp''))
          (Seq (lit ''://'')
          (Seq (Cls True (spaces @ [(CHR ''/'', CHR ''/''), (CHR ''$'', CHR ''$''), (CHR ''.'', CHR ''.''),
                                    (CHR ''?'', CHR ''?''), (CHR ''#'', CHR ''#'')]))
          (Seq anyChar
               (star (Cls True spaces))))))"

text \<open>\<^verbatim>\<open>(?i)([a-z0-9.-]+\.[a-z]{2,24})\b\<close>\<close>

definition domain_re :: regexp where
  "domain_re =
     Fold (Seq (Seq (plus (Cls False [(CHR ''a'', CHR ''z''), (CHR ''0'', CHR ''9''),
                                      (CHR ''.'', CHR ''.''), (CHR ''-'', CHR ''-'')]))
               (Seq (chr CHR ''.'')
                    (Rep (Cls False [(CHR ''a'', CHR ''z'')]) 2 (Some 24))))
          WordB)"

text \<open>\<^verbatim>\<open>([a-zA-Z0-9.-]+\/[a-zA-Z0-9.-]+)\<close>\<close>

definition filepath_re :: regexp where
  "filepath_re =
     Seq (plus (Cls False [(CHR ''a'', CHR ''z''), (CHR ''A'', CHR ''Z''), (CHR ''0'', CHR ''9''),
                           (CHR ''.'', CHR ''.''), (CHR ''-'', CHR ''-'')]))
    (Seq (chr CHR ''/'')
         (plus (Cls False [(CHR ''a'', CHR ''z''), (CHR ''A'', CHR ''Z''), (CHR ''0'', CHR ''9''),
                           (CHR ''.'', CHR ''.''), (CHR ''-'', CHR ''-'')])))"

text \<open>\<^verbatim>\<open>^[\w\-.]+\.[a-zA-Z]{2,4}$\<close>\<close>

definition filename_re :: regexp where
  "filename_re =
     Seq BOT
    (Seq (plus (Cls False (words @ [(CHR ''-'', CHR ''-''), (CHR ''.'', CHR ''.'')])))
    (Seq (chr CHR ''.'')
    (Seq (Rep (Cls False [(CHR ''a'', CHR ''z''), (CHR ''A'', CHR ''Z'')]) 2 (Some 4))
         EOT)))"

definition NewContextualizer :: "bool \<Rightarrow> string list \<Rightarrow> string list \<Rightarrow> Contextualizer" where
  "NewContextualizer ignoreIPs ignoreDomains ignoreEmails =
     \<lparr>ID = ''contextualizer'',
      Expressions =
        [''md5'' \<mapsto> hash_re 32,
         ''sha1'' \<mapsto> hash_re 40,
         ''sha256'' \<mapsto> hash_re 64,
         ''sha512'' \<mapsto> hash_re 128,
         ''ipv4'' \<mapsto> ipv4_re,
         ''ipv6'' \<mapsto> ipv6_re,
         ''email'' \<mapsto> email_re,
         ''url'' \<mapsto> url_re,
         ''domain'' \<mapsto> domain_re,
         ''filepath'' \<mapsto> filepath_re,
         ''filename'' \<mapsto> filename_re],
      Checks =
        \<lparr>IgnorePrivateIPs = ignoreIPs,
         IgnoredDomains = set (map (\<lambda>d. ToLower (TrimPrefix d ''.'')) ignoreDomains),
         IgnoredEmails = set (map ToLower ignoreEmails)\<rparr>\<rparr>"


section \<open>The filters\<close>

text \<open>
  \<^verbatim>\<open>isDomainIgnored\<close>: the loop tests \<open>current\<close> and then cuts it after its first dot,
  until it has no dot. \<open>current\<close> gets shorter in every round.
\<close>

function isDomainIgnored_loop :: "Contextualizer \<Rightarrow> string \<Rightarrow> bool" where
  "isDomainIgnored_loop c current =
     (if current \<in> IgnoredDomains (Checks c) then True
      else (case Index current ''.'' of
              None \<Rightarrow> False
            | Some idx \<Rightarrow> isDomainIgnored_loop c (drop (idx + 1) current)))"
  by pat_completeness auto
termination
proof (relation "measure (\<lambda>(c, current). length current)")
  show "wf (measure (\<lambda>(c, current). length current))"
    by simp
next
  fix c :: Contextualizer and current :: string and idx :: nat
  assume "Index current ''.'' = Some idx"
  then have "idx < length current"
    by (induction current arbitrary: idx) (auto simp: HasPrefix_def split: if_splits)
  then show "((c, drop (idx + 1) current), (c, current))
        \<in> measure (\<lambda>(c, current). length current)"
    by simp
qed

declare isDomainIgnored_loop.simps [simp del]

definition isDomainIgnored :: "Contextualizer \<Rightarrow> string \<Rightarrow> bool" where
  "isDomainIgnored c domain = isDomainIgnored_loop c (TrimSuffix (ToLower domain) ''.'')"

definition isPrivateIP :: "externals \<Rightarrow> string \<Rightarrow> bool" where
  "isPrivateIP X ipStr =
     (case net_ParseIP X ipStr of
        None \<Rightarrow> False
      | Some ip \<Rightarrow> IP_IsPrivate X ip \<or> IP_IsLoopback X ip \<or> IP_IsLinkLocalUnicast X ip)"

definition extractSecondLevelDomain :: "externals \<Rightarrow> string \<Rightarrow> string option" where
  "extractSecondLevelDomain X domain = publicsuffix_EffectiveTLDPlusOne X domain"


section \<open>GetMatches\<close>

text \<open>
  The state of the loop of \<^verbatim>\<open>GetMatches\<close> is the map \<open>seen\<close> (a missing key reads
  \<open>False\<close>) and the slice \<open>results\<close>. \<open>GetMatches_switch\<close> is the \<^verbatim>\<open>switch kind\<close>
  statement: \<open>None\<close> when a case runs \<^verbatim>\<open>continue\<close>, otherwise the results as the
  switch leaves them (the case \<^verbatim>\<open>"domain"\<close> may append a base domain).
\<close>

definition GetMatches_switch ::
  "externals \<Rightarrow> Contextualizer \<Rightarrow> string \<Rightarrow> string \<Rightarrow> string \<Rightarrow> Match list \<Rightarrow> Match list option" where
  "GetMatches_switch X c kind match cleanMatch results =
     (if kind = ''url'' then
        (case url_Parse_Hostname X cleanMatch of
           Some hostname \<Rightarrow> if isDomainIgnored c hostname then None else Some results
         | None \<Rightarrow> Some results)
      else if kind = ''filepath'' then
        (if HasPrefix cleanMatch ''http'' \<or> HasPrefix cleanMatch ''www'' \<or> HasPrefix cleanMatch ''ftp''
         then None else Some results)
      else if kind = ''ipv4'' then
        (if IgnorePrivateIPs (Checks c) \<and> isPrivateIP X match then None else Some results)
      else if kind = ''email'' then
        (if cleanMatch \<in> IgnoredEmails (Checks c) then None
         else (let parts = SplitByte cleanMatch CHR ''@'' in
               if length parts = 2 \<and> isDomainIgnored c (parts ! 1) then None else Some results))
      else if kind = ''domain'' then
        (if isDomainIgnored c cleanMatch then None
         else (case extractSecondLevelDomain X cleanMatch of
                 Some baseDomain \<Rightarrow>
                   if baseDomain \<noteq> [] \<and> baseDomain \<noteq> cleanMatch
                   then (if isDomainIgnored c baseDomain then Some results
                         else Some (results @ [\<lparr>Value = baseDomain, Type = ''base_domain''\<rparr>]))
                   else Some results
               | None \<Rightarrow> Some results))
      else Some results)"

definition GetMatches_body ::
  "externals \<Rightarrow> Contextualizer \<Rightarrow> string \<Rightarrow> (string \<Rightarrow> bool) \<times> Match list \<Rightarrow> string \<Rightarrow>
   (string \<Rightarrow> bool) \<times> Match list" where
  "GetMatches_body X c kind st match0 =
     (let seen = fst st;
          results = snd st;
          match = (if kind = ''url'' then TrimSuffix (TrimRight match0 ''/.,;:'') ''/'' else match0);
          cleanMatch = ToLower match
      in if seen cleanMatch then st
         else (case GetMatches_switch X c kind match cleanMatch results of
                 None \<Rightarrow> st
               | Some results1 \<Rightarrow>
                   (let finalValue = (if kind = ''domain'' \<or> kind = ''email'' then cleanMatch else match)
                    in if finalValue \<noteq> []
                       then (seen(cleanMatch := True), results1 @ [\<lparr>Value = finalValue, Type = kind\<rparr>])
                       else (seen, results1))))"

definition GetMatches ::
  "externals \<Rightarrow> Contextualizer \<Rightarrow> string \<Rightarrow> string \<Rightarrow> regexp \<Rightarrow> Match list" where
  "GetMatches X c text kind regex =
     snd (foldl (GetMatches_body X c kind) (\<lambda>k. False, []) (FindAllString regex text))"


section \<open>ExtractAll\<close>

text \<open>\<^verbatim>\<open>results[kind] = append(results[kind], m)\<close>: a missing key reads the empty slice.\<close>

definition append_result :: "(string \<rightharpoonup> Match list) \<Rightarrow> string \<Rightarrow> Match \<Rightarrow> (string \<rightharpoonup> Match list)" where
  "append_result results kind m =
     results(kind \<mapsto> (case results kind of None \<Rightarrow> [] | Some ms \<Rightarrow> ms) @ [m])"

text \<open>
  The first loop, over the matches of the pattern \<^verbatim>\<open>"url"\<close>. Its state is
  \<open>urlRanges\<close>, \<open>results\<close> and its own \<open>seen\<close>; an index pair \<^verbatim>\<open>idx\<close> is
  \<open>(idx[0], idx[1])\<close>.
\<close>

definition ExtractAll_url_body ::
  "externals \<Rightarrow> Contextualizer \<Rightarrow> string \<Rightarrow>
   (nat \<times> nat) list \<times> (string \<rightharpoonup> Match list) \<times> (string \<Rightarrow> bool) \<Rightarrow> nat \<times> nat \<Rightarrow>
   (nat \<times> nat) list \<times> (string \<rightharpoonup> Match list) \<times> (string \<Rightarrow> bool)" where
  "ExtractAll_url_body X c text st idx =
     (let urlRanges = fst st;
          results = fst (snd st);
          seen = snd (snd st);
          val = TrimSuffix (TrimRight (substring text (fst idx) (snd idx)) ''/.,;:'') ''/'';
          cleanVal = ToLower val
      in if (case url_Parse_Hostname X cleanVal of
               Some hostname \<Rightarrow> isDomainIgnored c hostname
             | None \<Rightarrow> False)
         then st
         else if \<not> seen cleanVal
         then (urlRanges @ [idx],
               append_result results ''url'' \<lparr>Value = val, Type = ''url''\<rparr>,
               seen(cleanVal := True))
         else st)"

definition ExtractAll_urls ::
  "externals \<Rightarrow> Contextualizer \<Rightarrow> string \<Rightarrow> (nat \<times> nat) list \<times> (string \<rightharpoonup> Match list)" where
  "ExtractAll_urls X c text =
     (case Expressions c ''url'' of
        Some urlRegex \<Rightarrow>
          (let st = foldl (ExtractAll_url_body X c text) ([], Map.empty, \<lambda>k. False)
                      (FindAllStringIndex urlRegex text)
           in (fst st, fst (snd st)))
      | None \<Rightarrow> ([], Map.empty))"

text \<open>
  The second loop runs once for every kind of the table but \<^verbatim>\<open>"url"\<close>. The loop over
  \<open>urlRanges\<close> that sets \<open>isInsideUrl\<close> is \<open>list_ex\<close>. The \<^verbatim>\<open>switch\<close> is
  \<open>ExtractAll_switch\<close>, read as \<open>GetMatches_switch\<close> is.
\<close>

definition isInsideUrl :: "(nat \<times> nat) list \<Rightarrow> nat \<times> nat \<Rightarrow> bool" where
  "isInsideUrl urlRanges idx = list_ex (\<lambda>r. fst r \<le> fst idx \<and> snd idx \<le> snd r) urlRanges"

definition ExtractAll_switch ::
  "externals \<Rightarrow> Contextualizer \<Rightarrow> string \<Rightarrow> string \<Rightarrow> string \<Rightarrow> (string \<rightharpoonup> Match list) \<Rightarrow>
   (string \<rightharpoonup> Match list) option" where
  "ExtractAll_switch X c kind val cleanVal results =
     (if kind = ''filepath'' then
        (if HasPrefix cleanVal ''http'' \<or> HasPrefix cleanVal ''www'' then None else Some results)
      else if kind = ''ipv4'' then
        (if IgnorePrivateIPs (Checks c) \<and> isPrivateIP X val then None else Some results)
      else if kind = ''email'' then
        (if cleanVal \<in> IgnoredEmails (Checks c) then None
         else (let parts = SplitByte cleanVal CHR ''@'' in
               if length parts = 2 \<and> isDomainIgnored c (parts ! 1) then None else Some results))
      else if kind = ''domain'' then
        (if isDomainIgnored c cleanVal then None
         else (case extractSecondLevelDomain X cleanVal of
                 Some base \<Rightarrow>
                   if base \<noteq> [] \<and> base \<noteq> cleanVal
                   then (if isDomainIgnored c base then Some results
                         else Some (append_result results ''base_domain''
                                      \<lparr>Value = base, Type = ''base_domain''\<rparr>))
                   else Some results
               | None \<Rightarrow> Some results))
      else Some results)"

definition ExtractAll_body ::
  "externals \<Rightarrow> Contextualizer \<Rightarrow> string \<Rightarrow> (nat \<times> nat) list \<Rightarrow> string \<Rightarrow>
   (string \<Rightarrow> bool) \<times> (string \<rightharpoonup> Match list) \<Rightarrow> nat \<times> nat \<Rightarrow>
   (string \<Rightarrow> bool) \<times> (string \<rightharpoonup> Match list)" where
  "ExtractAll_body X c text urlRanges kind st idx =
     (let seen = fst st;
          results = snd st;
          val = substring text (fst idx) (snd idx);
          cleanVal = ToLower val
      in if isInsideUrl urlRanges idx then st
         else if seen cleanVal then st
         else (case ExtractAll_switch X c kind val cleanVal results of
                 None \<Rightarrow> st
               | Some results1 \<Rightarrow>
                   (seen(cleanVal := True),
                    append_result results1 kind \<lparr>Value = val, Type = kind\<rparr>)))"

definition ExtractAll_kind ::
  "externals \<Rightarrow> Contextualizer \<Rightarrow> string \<Rightarrow> (nat \<times> nat) list \<Rightarrow>
   (string \<rightharpoonup> Match list) \<Rightarrow> string \<Rightarrow> (string \<rightharpoonup> Match list)" where
  "ExtractAll_kind X c text urlRanges results kind =
     (if kind = ''url'' then results
      else (case Expressions c kind of
              None \<Rightarrow> results
            | Some regex \<Rightarrow>
                snd (foldl (ExtractAll_body X c text urlRanges kind) (\<lambda>k. False, results)
                       (FindAllStringIndex regex text))))"

text \<open>
  Go visits the keys of a map in an order it does not specify, each key once.
  \<open>ExtractAll\<close> takes the order of one run as the list \<open>order\<close> of the kinds;
  \<open>iteration_order c order\<close> says that \<open>order\<close> is such an order for the table of \<open>c\<close>.
\<close>

definition iteration_order :: "Contextualizer \<Rightarrow> string list \<Rightarrow> bool" where
  "iteration_order c order = (distinct order \<and> set order = dom (Expressions c))"

definition ExtractAll ::
  "externals \<Rightarrow> Contextualizer \<Rightarrow> string \<Rightarrow> string list \<Rightarrow> (string \<rightharpoonup> Match list)" where
  "ExtractAll X c text order =
     (let urls = ExtractAll_urls X c text
      in foldl (ExtractAll_kind X c text (fst urls)) (snd urls) order)"


section \<open>An instance of the libraries, for the examples\<close>

text \<open>
  The theorems below hold for every value of the parameter \<open>X\<close>. The examples at
  concrete texts are evaluated with the instance \<open>stdlib\<close>, which follows the
  documentation of the libraries on the inputs of the examples:
  \<^item> \<open>go_ParseIP\<close> parses a dotted-quad IPv4 literal as \<^verbatim>\<open>net.ParseIP\<close> does (four
    decimal fields, none empty, none above 255, none with a leading zero) into the
    16-byte form; a literal the library would read as IPv6 is outside this instance,
    which returns \<open>None\<close> for it;
  \<^item> \<open>go_IsPrivate\<close>, \<open>go_IsLoopback\<close> and \<open>go_IsLinkLocalUnicast\<close> are the ranges of
    the three methods of \<^verbatim>\<open>net.IP\<close>;
  \<^item> \<open>go_Hostname\<close> reads the host of a URL of the form
    \<^verbatim>\<open>scheme://[userinfo@]host[:port][/path][?query][#fragment]\<close> and is the empty
    string for a string without \<^verbatim>\<open>://\<close>;
  \<^item> \<open>go_EffectiveTLDPlusOne\<close> is the function of the library for a suffix list that
    holds the default rule only (the public suffix is the last label).
\<close>

definition decimal :: "string \<Rightarrow> nat" where
  "decimal s = foldl (\<lambda>v ch. v * 10 + (of_char ch - 48)) 0 s"

definition go_ipv4_field :: "string \<Rightarrow> bool" where
  "go_ipv4_field f =
     (f \<noteq> [] \<and> list_all (\<lambda>ch. (48::nat) \<le> of_char ch \<and> of_char ch \<le> (57::nat)) f \<and>
      (length f = 1 \<or> hd f \<noteq> CHR ''0'') \<and> length f \<le> 3 \<and> decimal f \<le> 255)"

definition go_ParseIP :: "string \<Rightarrow> IP option" where
  "go_ParseIP s =
     (case find (\<lambda>ch. ch \<in> set ''.:%'') s of
        None \<Rightarrow> None
      | Some ch \<Rightarrow>
          if ch = CHR ''.'' then
            (let fields = SplitByte s CHR ''.'' in
             if length fields = 4 \<and> list_all go_ipv4_field fields
             then Some (replicate 10 0 @ [0xff, 0xff] @ map (\<lambda>f. of_nat (decimal f)) fields)
             else None)
          else None)"

definition To4 :: "IP \<Rightarrow> IP option" where
  "To4 ip =
     (if length ip = 4 then Some ip
      else if length ip = 16 \<and> take 10 ip = replicate 10 0 \<and> ip ! 10 = 0xff \<and> ip ! 11 = 0xff
      then Some (drop 12 ip)
      else None)"

definition go_IsPrivate :: "IP \<Rightarrow> bool" where
  "go_IsPrivate ip =
     (case To4 ip of
        Some ip4 \<Rightarrow>
          ip4 ! 0 = 10 \<or> (ip4 ! 0 = 172 \<and> and (ip4 ! 1) 0xf0 = 16) \<or> (ip4 ! 0 = 192 \<and> ip4 ! 1 = 168)
      | None \<Rightarrow> length ip = 16 \<and> and (ip ! 0) 0xfe = 0xfc)"

definition go_IsLoopback :: "IP \<Rightarrow> bool" where
  "go_IsLoopback ip =
     (case To4 ip of
        Some ip4 \<Rightarrow> ip4 ! 0 = 127
      | None \<Rightarrow> ip = replicate 15 0 @ [1])"

definition go_IsLinkLocalUnicast :: "IP \<Rightarrow> bool" where
  "go_IsLinkLocalUnicast ip =
     (case To4 ip of
        Some ip4 \<Rightarrow> ip4 ! 0 = 169 \<and> ip4 ! 1 = 254
      | None \<Rightarrow> length ip = 16 \<and> ip ! 0 = 0xfe \<and> and (ip ! 1) 0xc0 = 0x80)"

definition go_Hostname :: "string \<Rightarrow> string option" where
  "go_Hostname s =
     (case Index s ''://'' of
        None \<Rightarrow> Some []
      | Some i \<Rightarrow>
          (let authority = takeWhile (\<lambda>ch. ch \<notin> set ''/?#'') (drop (i + 3) s);
               hostport = rev (takeWhile (\<lambda>ch. ch \<noteq> CHR ''@'') (rev authority))
           in Some (takeWhile (\<lambda>ch. ch \<noteq> CHR '':'') hostport)))"

definition go_EffectiveTLDPlusOne :: "string \<Rightarrow> string option" where
  "go_EffectiveTLDPlusOne domain =
     (let labels = SplitByte domain CHR ''.'' in
      if list_ex (\<lambda>l. l = []) labels \<or> length labels < 2 then None
      else Some (labels ! (length labels - 2) @ ''.'' @ labels ! (length labels - 1)))"

definition stdlib :: externals where
  "stdlib =
     \<lparr>net_ParseIP = go_ParseIP,
      IP_IsPrivate = go_IsPrivate,
      IP_IsLoopback = go_IsLoopback,
      IP_IsLinkLocalUnicast = go_IsLinkLocalUnicast,
      url_Parse_Hostname = go_Hostname,
      publicsuffix_EffectiveTLDPlusOne = go_EffectiveTLDPlusOne\<rparr>"

section \<open>Notions used to state the properties\<close>

text \<open>
  \<open>label_suffix s t\<close>: \<open>t\<close> is \<open>s\<close>, or \<open>s\<close> with some of its leftmost labels
  dropped, each with the dot that ends it: \<open>t\<close> is what is left of \<open>s\<close> after nothing
  or after a prefix that ends with a dot.
\<close>

definition label_suffix :: "string \<Rightarrow> string \<Rightarrow> bool" where
  "label_suffix s t = (\<exists>p. s = p @ t \<and> (p = [] \<or> last p = CHR ''.''))"


text \<open>
  \<open>first_by_key S key xs\<close>: the elements of \<open>xs\<close>, in their order, whose key is not in
  \<open>S\<close> and is not the key of an earlier element of \<open>xs\<close>: of the elements with one
  key, the first.
\<close>

definition first_by_key :: "'k set \<Rightarrow> ('a \<Rightarrow> 'k) \<Rightarrow> 'a list \<Rightarrow> 'a list" where
  "first_by_key S key xs =
     map ((!) xs)
       (filter (\<lambda>i. key (xs ! i) \<notin> S \<and> list_all (\<lambda>j. key (xs ! j) \<noteq> key (xs ! i)) [0..<i])
          [0..<length xs])"

text \<open>
  For \<^verbatim>\<open>GetMatches\<close>: the candidate that the loop makes of a match of the pattern (a
  URL is trimmed), the value it emits for a candidate, whether the \<^verbatim>\<open>switch\<close> and the
  test \<^verbatim>\<open>finalValue != ""\<close> keep a candidate, and the base-domain results that the
  \<^verbatim>\<open>switch\<close> appends for it.
\<close>

definition GetMatches_candidate :: "string \<Rightarrow> string \<Rightarrow> string" where
  "GetMatches_candidate kind match0 =
     (if kind = ''url'' then TrimSuffix (TrimRight match0 ''/.,;:'') ''/'' else match0)"

definition GetMatches_value :: "string \<Rightarrow> string \<Rightarrow> string" where
  "GetMatches_value kind v = (if kind = ''domain'' \<or> kind = ''email'' then ToLower v else v)"

definition GetMatches_kept :: "externals \<Rightarrow> Contextualizer \<Rightarrow> string \<Rightarrow> string \<Rightarrow> bool" where
  "GetMatches_kept X c kind v = (GetMatches_switch X c kind v (ToLower v) [] \<noteq> None \<and> v \<noteq> [])"

definition GetMatches_bases :: "externals \<Rightarrow> Contextualizer \<Rightarrow> string \<Rightarrow> string \<Rightarrow> Match list" where
  "GetMatches_bases X c kind v =
     (case GetMatches_switch X c kind v (ToLower v) [] of None \<Rightarrow> [] | Some bs \<Rightarrow> bs)"

text \<open>
  For \<^verbatim>\<open>ExtractAll\<close>: reading a key of \<open>results\<close> (a missing key reads the empty
  slice), appending a list of matches each under the key of its type, the candidate of an
  index pair, the test of the first loop that a URL is ignored, whether the \<^verbatim>\<open>switch\<close>
  keeps a candidate, and the base-domain results it appends for it.
\<close>

definition lookup_matches :: "(string \<rightharpoonup> Match list) \<Rightarrow> string \<Rightarrow> Match list" where
  "lookup_matches results k = (case results k of None \<Rightarrow> [] | Some ms \<Rightarrow> ms)"

definition add_all :: "(string \<rightharpoonup> Match list) \<Rightarrow> Match list \<Rightarrow> (string \<rightharpoonup> Match list)" where
  "add_all results ms = foldl (\<lambda>r m. append_result r (Type m) m) results ms"

definition ExtractAll_candidate :: "string \<Rightarrow> nat \<times> nat \<Rightarrow> string" where
  "ExtractAll_candidate text idx = substring text (fst idx) (snd idx)"

definition ExtractAll_url_candidate :: "string \<Rightarrow> nat \<times> nat \<Rightarrow> string" where
  "ExtractAll_url_candidate text idx =
     TrimSuffix (TrimRight (substring text (fst idx) (snd idx)) ''/.,;:'') ''/''"

definition url_ignored :: "externals \<Rightarrow> Contextualizer \<Rightarrow> string \<Rightarrow> bool" where
  "url_ignored X c v =
     (case url_Parse_Hostname X (ToLower v) of
        Some hostname \<Rightarrow> isDomainIgnored c hostname
      | None \<Rightarrow> False)"

definition ExtractAll_kept :: "externals \<Rightarrow> Contextualizer \<Rightarrow> string \<Rightarrow> string \<Rightarrow> bool" where
  "ExtractAll_kept X c kind v = (ExtractAll_switch X c kind v (ToLower v) Map.empty \<noteq> None)"

definition ExtractAll_bases :: "externals \<Rightarrow> Contextualizer \<Rightarrow> string \<Rightarrow> string \<Rightarrow> Match list" where
  "ExtractAll_bases X c kind v =
     (case ExtractAll_switch X c kind v (ToLower v) Map.empty of
        None \<Rightarrow> []
      | Some r \<Rightarrow> lookup_matches r ''base_domain'')"

text \<open>
  \<open>url_ranges\<close>: the index pairs of the matches of the pattern \<^verbatim>\<open>"url"\<close> that are not
  ignored, the first of each case-folded value. \<open>url_matches\<close>: their results.
  \<open>kind_retained\<close>: the candidates of one kind that are not inside a range of
  \<open>urlRanges\<close> and that the \<^verbatim>\<open>switch\<close> keeps, the first of each case-folded value.
  \<open>kind_matches\<close>: what the loop of the kind appends for them: for each its base
  domain, if any, and the match.
\<close>

definition url_ranges :: "externals \<Rightarrow> Contextualizer \<Rightarrow> string \<Rightarrow> (nat \<times> nat) list" where
  "url_ranges X c text =
     (case Expressions c ''url'' of
        None \<Rightarrow> []
      | Some urlRegex \<Rightarrow>
          first_by_key {} (\<lambda>idx. ToLower (ExtractAll_url_candidate text idx))
            (filter (\<lambda>idx. \<not> url_ignored X c (ExtractAll_url_candidate text idx))
               (FindAllStringIndex urlRegex text)))"

definition url_matches :: "externals \<Rightarrow> Contextualizer \<Rightarrow> string \<Rightarrow> Match list" where
  "url_matches X c text =
     map (\<lambda>idx. \<lparr>Value = ExtractAll_url_candidate text idx, Type = ''url''\<rparr>) (url_ranges X c text)"

definition kind_retained ::
  "externals \<Rightarrow> Contextualizer \<Rightarrow> string \<Rightarrow> (nat \<times> nat) list \<Rightarrow> string \<Rightarrow> regexp \<Rightarrow> string list" where
  "kind_retained X c text urlRanges kind regex =
     first_by_key {} ToLower
       (filter (ExtractAll_kept X c kind)
          (map (ExtractAll_candidate text)
             (filter (\<lambda>idx. \<not> isInsideUrl urlRanges idx) (FindAllStringIndex regex text))))"

definition kind_matches ::
  "externals \<Rightarrow> Contextualizer \<Rightarrow> string \<Rightarrow> (nat \<times> nat) list \<Rightarrow> string \<Rightarrow> Match list" where
  "kind_matches X c text urlRanges kind =
     (if kind = ''url'' then []
      else (case Expressions c kind of
              None \<Rightarrow> []
            | Some regex \<Rightarrow>
                concat (map (\<lambda>v. ExtractAll_bases X c kind v @ [\<lparr>Value = v, Type = kind\<rparr>])
                  (kind_retained X c text urlRanges kind regex))))"

text \<open>A key of \<open>results\<close> that nothing was appended to is missing.\<close>

definition some_list :: "'a list \<Rightarrow> 'a list option" where
  "some_list xs = (if xs = [] then None else Some xs)"

text \<open>
  A method with a pointer receiver can change the receiver. \<open>GetMatches_call\<close> and
  \<open>ExtractAll_call\<close> are the two methods as state transformers: the result, and the
  receiver after the call. Neither method assigns to a field of \<^verbatim>\<open>c\<close> or of
  \<^verbatim>\<open>c.Checks\<close>, or to an entry of one of the three maps, so the receiver after the call
  is the receiver before it; all the state they change is local to the call (\<open>seen\<close>,
  \<open>results\<close>, \<open>urlRanges\<close>).
\<close>

definition GetMatches_call ::
  "externals \<Rightarrow> string \<Rightarrow> string \<Rightarrow> regexp \<Rightarrow> Contextualizer \<Rightarrow> Match list \<times> Contextualizer" where
  "GetMatches_call X text kind regex c = (GetMatches X c text kind regex, c)"

definition ExtractAll_call ::
  "externals \<Rightarrow> string \<Rightarrow> string list \<Rightarrow> Contextualizer \<Rightarrow> (string \<rightharpoonup> Match list) \<times> Contextualizer" where
  "ExtractAll_call X text order c = (ExtractAll X c text order, c)"

text \<open>The kinds of the table of \<^verbatim>\<open>NewContextualizer\<close>, in the order the source lists them.\<close>

definition table_order :: "string list" where
  "table_order =
     [''md5'', ''sha1'', ''sha256'', ''sha512'', ''ipv4'', ''ipv6'', ''email'', ''url'',
      ''domain'', ''filepath'', ''filename'']"

section \<open>The domain-ignore check\<close>

lemma Index_dot_None: "Index s ''.'' = None \<longleftrightarrow> CHR ''.'' \<notin> set s"
  by (induction s) (auto simp: HasPrefix_def)

lemma Index_dot_Some:
  "Index s ''.'' = Some i \<Longrightarrow> i < length s \<and> s ! i = CHR ''.'' \<and> CHR ''.'' \<notin> set (take i s)"
proof (induction s arbitrary: i)
  case Nil
  then show ?case by simp
next
  case (Cons a s)
  show ?case
  proof (cases "a = CHR ''.''")
    case True
    with Cons.prems show ?thesis by (simp add: HasPrefix_def)
  next
    case False
    with Cons.prems obtain j where j: "Index s ''.'' = Some j" "i = Suc j"
      by (auto simp: HasPrefix_def)
    from Cons.IH [OF j(1)] False j(2) show ?thesis by simp
  qed
qed

lemma label_suffix_step:
  assumes i: "Index s ''.'' = Some i"
  shows "label_suffix s t \<longleftrightarrow> t = s \<or> label_suffix (drop (i + 1) s) t"
proof -
  from Index_dot_Some [OF i]
  have il: "i < length s" and dot: "s ! i = CHR ''.''" and nodot: "CHR ''.'' \<notin> set (take i s)"
    by simp_all
  have s_eq: "s = take i s @ CHR ''.'' # drop (i + 1) s"
    using il dot by (metis Suc_eq_plus1 id_take_nth_drop)
  show ?thesis
  proof
    assume "label_suffix s t"
    then obtain p where p: "s = p @ t" "p = [] \<or> last p = CHR ''.''"
      by (auto simp: label_suffix_def)
    show "t = s \<or> label_suffix (drop (i + 1) s) t"
    proof (cases "p = []")
      case True
      with p show ?thesis by simp
    next
      case False
      with p have lp: "last p = CHR ''.''" by simp
      have "i < length p"
      proof (rule ccontr)
        assume "\<not> i < length p"
        then have "length p \<le> i" by simp
        then have "take i s = p @ take (i - length p) t"
          using p(1) by simp
        then have "last p \<in> set (take i s)"
          using False by simp
        with lp nodot show False by simp
      qed
      then have "drop (i + 1) s = drop (i + 1) p @ t"
        using p(1) by simp
      moreover have "drop (i + 1) p = [] \<or> last (drop (i + 1) p) = CHR ''.''"
        using lp by (cases "drop (i + 1) p = []") simp_all
      ultimately show ?thesis
        unfolding label_suffix_def by blast
    qed
  next
    assume "t = s \<or> label_suffix (drop (i + 1) s) t"
    then show "label_suffix s t"
    proof
      assume "t = s"
      then show ?thesis by (simp add: label_suffix_def)
    next
      assume "label_suffix (drop (i + 1) s) t"
      then obtain q where q: "drop (i + 1) s = q @ t" "q = [] \<or> last q = CHR ''.''"
        by (auto simp: label_suffix_def)
      have "s = (take i s @ CHR ''.'' # q) @ t"
        using s_eq q(1) by simp
      moreover have "last (take i s @ CHR ''.'' # q) = CHR ''.''"
        using q(2) by auto
      ultimately show ?thesis
        unfolding label_suffix_def by blast
    qed
  qed
qed

lemma label_suffix_nodot:
  assumes "Index s ''.'' = None"
  shows "label_suffix s t \<longleftrightarrow> t = s"
proof -
  from assms have nodot: "CHR ''.'' \<notin> set s" by (simp add: Index_dot_None)
  show ?thesis
  proof
    assume "label_suffix s t"
    then obtain p where p: "s = p @ t" "p = [] \<or> last p = CHR ''.''"
      by (auto simp: label_suffix_def)
    show "t = s"
    proof (cases "p = []")
      case True
      with p show ?thesis by simp
    next
      case False
      with p have lp: "last p = CHR ''.''" by simp
      have "last p \<in> set p" using False by simp
      then have "CHR ''.'' \<in> set s" using p(1) lp by simp
      with nodot show ?thesis by simp
    qed
  next
    assume "t = s"
    then show "label_suffix s t" by (simp add: label_suffix_def)
  qed
qed

lemma isDomainIgnored_loop_iff:
  "isDomainIgnored_loop c current \<longleftrightarrow>
     (\<exists>t. label_suffix current t \<and> t \<in> IgnoredDomains (Checks c))"
proof (induction c current rule: isDomainIgnored_loop.induct)
  case (1 c current)
  show ?case
  proof (cases "current \<in> IgnoredDomains (Checks c)")
    case True
    moreover have "label_suffix current current" by (simp add: label_suffix_def)
    ultimately show ?thesis
      by (subst isDomainIgnored_loop.simps) auto
  next
    case False
    show ?thesis
    proof (cases "Index current ''.''")
      case None
      with False show ?thesis
        by (subst isDomainIgnored_loop.simps) (simp add: label_suffix_nodot)
    next
      case (Some idx)
      from "1.IH" [OF False Some] False Some show ?thesis
        by (subst isDomainIgnored_loop.simps) (auto simp: label_suffix_step [OF Some])
    qed
  qed
qed

lemma isDomainIgnored_iff:
  "isDomainIgnored c d \<longleftrightarrow>
     (\<exists>t. label_suffix (TrimSuffix (ToLower d) ''.'') t \<and> t \<in> IgnoredDomains (Checks c))"
  by (simp add: isDomainIgnored_def isDomainIgnored_loop_iff)

lemmas string_simps =
  ToLower_def toLowerChar_def TrimSuffix_def HasSuffix_def TrimPrefix_def HasPrefix_def
  TrimRight_def substring_def char_of_def bit_Suc_0_iff

section \<open>De-duplication: the first of each key\<close>

lemma upt_0_Suc: "[0..<Suc n] = 0 # map Suc [0..<n]"
  by (metis map_Suc_upt upt_conv_Cons zero_less_Suc)

lemma first_by_key_Nil [simp]: "first_by_key S key [] = []"
  by (simp add: first_by_key_def)

lemma first_by_key_Cons:
  "first_by_key S key (x # xs) =
     (if key x \<in> S then first_by_key S key xs
      else x # first_by_key (insert (key x) S) key xs)"
proof -
  let ?P = "\<lambda>ys i. key (ys ! i) \<notin> S \<and> list_all (\<lambda>j. key (ys ! j) \<noteq> key (ys ! i)) [0..<i]"
  have upt: "[0..<length (x # xs)] = 0 # map Suc [0..<length xs]"
    using upt_0_Suc [of "length xs"] by simp
  have shift: "list_all (\<lambda>j. key ((x # xs) ! j) \<noteq> key (xs ! i)) [0..<Suc i] \<longleftrightarrow>
      key x \<noteq> key (xs ! i) \<and> list_all (\<lambda>j. key (xs ! j) \<noteq> key (xs ! i)) [0..<i]"
    for i
    unfolding upt_0_Suc by (simp add: list.pred_map o_def)
  have tail: "map ((!) (x # xs)) (filter (?P (x # xs)) (map Suc [0..<length xs])) =
      map ((!) xs) (filter (\<lambda>i. key (xs ! i) \<notin> S \<and> key x \<noteq> key (xs ! i) \<and>
                                list_all (\<lambda>j. key (xs ! j) \<noteq> key (xs ! i)) [0..<i]) [0..<length xs])"
    by (simp add: filter_map o_def shift del: upt_Suc)
  show ?thesis
  proof (cases "key x \<in> S")
    case True
    then have "(\<lambda>i. key (xs ! i) \<notin> S \<and> key x \<noteq> key (xs ! i) \<and>
                  list_all (\<lambda>j. key (xs ! j) \<noteq> key (xs ! i)) [0..<i]) = ?P xs"
      by (auto simp: fun_eq_iff)
    with True tail upt show ?thesis
      by (simp add: first_by_key_def del: upt_Suc)
  next
    case False
    then have "(\<lambda>i. key (xs ! i) \<notin> S \<and> key x \<noteq> key (xs ! i) \<and>
                  list_all (\<lambda>j. key (xs ! j) \<noteq> key (xs ! i)) [0..<i]) =
               (\<lambda>i. key (xs ! i) \<notin> insert (key x) S \<and> list_all (\<lambda>j. key (xs ! j) \<noteq> key (xs ! i)) [0..<i])"
      by (auto simp: fun_eq_iff)
    with False tail upt show ?thesis
      by (simp add: first_by_key_def del: upt_Suc)
  qed
qed

lemma first_by_key_keys: "key ` set (first_by_key S key xs) = key ` set xs - S"
  by (induction xs arbitrary: S) (auto simp: first_by_key_Cons)

lemma first_by_key_distinct: "distinct (map key (first_by_key S key xs))"
proof (induction xs arbitrary: S)
  case Nil
  show ?case by simp
next
  case (Cons x xs)
  have "key x \<notin> key ` set (first_by_key (insert (key x) S) key xs)"
    by (simp add: first_by_key_keys)
  with Cons show ?case
    by (simp add: first_by_key_Cons)
qed

lemma first_by_key_subset: "set (first_by_key S key xs) \<subseteq> set xs"
  by (induction xs arbitrary: S) (auto simp: first_by_key_Cons)

lemma first_by_key_subseq: "subseq (first_by_key S key xs) xs"
  by (induction xs arbitrary: S) (auto simp: first_by_key_Cons)


section \<open>The loop of GetMatches\<close>

lemma ToLower_Nil_iff [simp]: "ToLower v = [] \<longleftrightarrow> v = []"
  by (simp add: ToLower_def)

lemma ToLower_Nil [simp]: "ToLower [] = []"
  by (simp add: ToLower_def)

lemma toLowerChar_idem [simp]: "toLowerChar (toLowerChar ch) = toLowerChar ch"
proof (cases "(65::nat) \<le> of_char ch \<and> of_char ch \<le> (90::nat)")
  case True
  then have "of_char (char_of (of_char ch + (32::nat))) = (of_char ch + 32 :: nat)"
    by simp
  with True show ?thesis
    unfolding toLowerChar_def by simp
next
  case False
  then have "toLowerChar ch = ch"
    by (auto simp: toLowerChar_def)
  then show ?thesis by simp
qed

lemma ToLower_idem [simp]: "ToLower (ToLower s) = ToLower s"
  by (simp add: ToLower_def)

lemma GetMatches_switch_eq:
  "GetMatches_switch X c kind v (ToLower v) rs =
     (if GetMatches_switch X c kind v (ToLower v) [] = None then None
      else Some (rs @ GetMatches_bases X c kind v))"
  by (simp add: GetMatches_switch_def GetMatches_bases_def Let_def split: option.splits)

lemma GetMatches_bases_Type:
  "m \<in> set (GetMatches_bases X c kind v) \<Longrightarrow> Type m = ''base_domain'' \<and> kind = ''domain''"
  by (auto simp: GetMatches_switch_def GetMatches_bases_def Let_def split: option.splits if_splits)

lemma GetMatches_body_eq:
  "GetMatches_body X c kind (seen, rs) match0 =
     (let v = GetMatches_candidate kind match0 in
      if seen (ToLower v) \<or> GetMatches_switch X c kind v (ToLower v) [] = None then (seen, rs)
      else if v = [] then (seen, rs @ GetMatches_bases X c kind v)
      else (seen(ToLower v := True),
            rs @ GetMatches_bases X c kind v @ [\<lparr>Value = GetMatches_value kind v, Type = kind\<rparr>]))"
  unfolding GetMatches_body_def GetMatches_candidate_def [symmetric] Let_def fst_conv snd_conv
  by (subst GetMatches_switch_eq) (auto simp: GetMatches_value_def)

lemma Collect_fun_upd_True: "Collect (f(a := True)) = insert a (Collect f)"
  by auto

lemma GetMatches_loop_primaries:
  "filter (\<lambda>m. Type m = kind) (snd (foldl (GetMatches_body X c kind) (seen, rs) ms)) =
     filter (\<lambda>m. Type m = kind) rs @
     map (\<lambda>v. \<lparr>Value = GetMatches_value kind v, Type = kind\<rparr>)
       (first_by_key (Collect seen) ToLower
          (filter (GetMatches_kept X c kind) (map (GetMatches_candidate kind) ms)))"
proof (induction ms arbitrary: seen rs)
  case Nil
  show ?case by simp
next
  case (Cons match0 ms)
  let ?v = "GetMatches_candidate kind match0"
  let ?rest = "filter (GetMatches_kept X c kind) (map (GetMatches_candidate kind) ms)"
  let ?P = "\<lambda>m. Type m = kind"
  let ?f = "\<lambda>v. \<lparr>Value = GetMatches_value kind v, Type = kind\<rparr>"
  let ?st = "GetMatches_body X c kind (seen, rs) match0"
  have nobase: "filter ?P (GetMatches_bases X c kind ?v) = []"
    by (auto simp: filter_empty_conv dest: GetMatches_bases_Type)
  have step: "filter ?P (snd (foldl (GetMatches_body X c kind) (seen, rs) (match0 # ms))) =
      filter ?P (snd ?st) @ map ?f (first_by_key (Collect (fst ?st)) ToLower ?rest)"
    using Cons.IH [of "fst ?st" "snd ?st"] by simp
  consider (dup) "seen (ToLower ?v)"
    | (drop) "\<not> seen (ToLower ?v)" "GetMatches_switch X c kind ?v (ToLower ?v) [] = None"
    | (empty) "\<not> seen (ToLower ?v)" "GetMatches_switch X c kind ?v (ToLower ?v) [] \<noteq> None" "?v = []"
    | (keep) "\<not> seen (ToLower ?v)" "GetMatches_switch X c kind ?v (ToLower ?v) [] \<noteq> None" "?v \<noteq> []"
    by blast
  then show ?case
  proof cases
    case dup
    then have st: "?st = (seen, rs)"
      by (simp add: GetMatches_body_eq Let_def)
    have "first_by_key (Collect seen) ToLower
            (filter (GetMatches_kept X c kind) (map (GetMatches_candidate kind) (match0 # ms))) =
          first_by_key (Collect seen) ToLower ?rest"
      using dup by (simp add: first_by_key_Cons)
    then show ?thesis
      unfolding step st by simp
  next
    case drop
    then have st: "?st = (seen, rs)"
      by (simp add: GetMatches_body_eq Let_def)
    have "\<not> GetMatches_kept X c kind ?v"
      using drop by (simp add: GetMatches_kept_def)
    then show ?thesis
      unfolding step st by simp
  next
    case empty
    then have st: "?st = (seen, rs @ GetMatches_bases X c kind ?v)"
      by (auto simp: GetMatches_body_eq Let_def)
    have "\<not> GetMatches_kept X c kind ?v"
      using empty by (simp add: GetMatches_kept_def)
    then show ?thesis
      unfolding step st using nobase by simp
  next
    case keep
    then have st: "?st =
        (seen(ToLower ?v := True), rs @ GetMatches_bases X c kind ?v @ [?f ?v])"
      by (auto simp: GetMatches_body_eq Let_def)
    have kept: "GetMatches_kept X c kind ?v"
      using keep by (simp add: GetMatches_kept_def)
    have "first_by_key (Collect seen) ToLower
            (filter (GetMatches_kept X c kind) (map (GetMatches_candidate kind) (match0 # ms))) =
          ?v # first_by_key (insert (ToLower ?v) (Collect seen)) ToLower ?rest"
      using keep(1) kept by (simp add: first_by_key_Cons)
    then show ?thesis
      unfolding step st fst_conv snd_conv Collect_fun_upd_True using nobase by simp
  qed
qed

section \<open>The loops of ExtractAll\<close>

lemma add_all_Nil [simp]: "add_all r [] = r"
  by (simp add: add_all_def)

lemma add_all_append: "add_all r (xs @ ys) = add_all (add_all r xs) ys"
  by (simp add: add_all_def)

lemma add_all_Cons: "add_all r (m # ms) = add_all (append_result r (Type m) m) ms"
  by (simp add: add_all_def)

lemma add_all_single: "add_all r [m] = append_result r (Type m) m"
  by (simp add: add_all_def)

lemma add_all_at:
  "add_all r ms k =
     (if filter (\<lambda>m. Type m = k) ms = [] then r k
      else Some (lookup_matches r k @ filter (\<lambda>m. Type m = k) ms))"
proof (induction ms arbitrary: r)
  case Nil
  show ?case by simp
next
  case (Cons m ms)
  have "add_all r (m # ms) = add_all (append_result r (Type m) m) ms"
    by (simp add: add_all_def)
  then show ?case
    by (simp add: Cons.IH append_result_def lookup_matches_def)
qed

lemma ExtractAll_switch_eq:
  "ExtractAll_switch X c kind v (ToLower v) results =
     (if ExtractAll_kept X c kind v then Some (add_all results (ExtractAll_bases X c kind v))
      else None)"
  by (simp add: ExtractAll_switch_def ExtractAll_kept_def ExtractAll_bases_def Let_def
      add_all_single lookup_matches_def append_result_def split: option.splits)

lemma ExtractAll_bases_Type:
  "m \<in> set (ExtractAll_bases X c kind v) \<Longrightarrow> Type m = ''base_domain'' \<and> kind = ''domain''"
  by (auto simp: ExtractAll_switch_def ExtractAll_bases_def Let_def lookup_matches_def
      append_result_def split: option.splits if_splits)

lemma ExtractAll_body_eq:
  "ExtractAll_body X c text urlRanges kind (seen, results) idx =
     (let v = ExtractAll_candidate text idx in
      if isInsideUrl urlRanges idx \<or> seen (ToLower v) \<or> \<not> ExtractAll_kept X c kind v
      then (seen, results)
      else (seen(ToLower v := True),
            add_all results (ExtractAll_bases X c kind v @ [\<lparr>Value = v, Type = kind\<rparr>])))"
  unfolding ExtractAll_body_def ExtractAll_candidate_def [symmetric] Let_def fst_conv snd_conv
  by (subst ExtractAll_switch_eq) (simp add: add_all_append add_all_single)

lemma ExtractAll_loop_eq:
  "foldl (ExtractAll_body X c text urlRanges kind) (seen, results) idxs =
     (\<lambda>k. seen k \<or> k \<in> ToLower ` set (filter (ExtractAll_kept X c kind)
                        (map (ExtractAll_candidate text)
                           (filter (\<lambda>idx. \<not> isInsideUrl urlRanges idx) idxs))),
      add_all results
        (concat (map (\<lambda>v. ExtractAll_bases X c kind v @ [\<lparr>Value = v, Type = kind\<rparr>])
           (first_by_key (Collect seen) ToLower
              (filter (ExtractAll_kept X c kind)
                 (map (ExtractAll_candidate text)
                    (filter (\<lambda>idx. \<not> isInsideUrl urlRanges idx) idxs)))))))"
proof (induction idxs arbitrary: seen results)
  case Nil
  show ?case by simp
next
  case (Cons idx idxs)
  let ?v = "ExtractAll_candidate text idx"
  let ?st = "ExtractAll_body X c text urlRanges kind (seen, results) idx"
  let ?cands = "\<lambda>l. filter (ExtractAll_kept X c kind)
                 (map (ExtractAll_candidate text)
                    (filter (\<lambda>idx. \<not> isInsideUrl urlRanges idx) l))"
  let ?emit = "\<lambda>v. ExtractAll_bases X c kind v @ [\<lparr>Value = v, Type = kind\<rparr>]"
  have step: "foldl (ExtractAll_body X c text urlRanges kind) (seen, results) (idx # idxs) =
      (\<lambda>k. fst ?st k \<or> k \<in> ToLower ` set (?cands idxs),
       add_all (snd ?st) (concat (map ?emit (first_by_key (Collect (fst ?st)) ToLower (?cands idxs)))))"
    using Cons.IH [of "fst ?st" "snd ?st"] by simp
  consider (out) "isInsideUrl urlRanges idx \<or> \<not> ExtractAll_kept X c kind ?v"
    | (dup) "\<not> isInsideUrl urlRanges idx" "ExtractAll_kept X c kind ?v" "seen (ToLower ?v)"
    | (keep) "\<not> isInsideUrl urlRanges idx" "ExtractAll_kept X c kind ?v" "\<not> seen (ToLower ?v)"
    by blast
  then show ?case
  proof cases
    case out
    then have st: "?st = (seen, results)"
      by (auto simp: ExtractAll_body_eq Let_def)
    from out have "?cands (idx # idxs) = ?cands idxs"
      by auto
    then show ?thesis
      unfolding step st by simp
  next
    case dup
    then have st: "?st = (seen, results)"
      by (auto simp: ExtractAll_body_eq Let_def)
    from dup have c: "?cands (idx # idxs) = ?v # ?cands idxs"
      by simp
    have "(\<lambda>k. seen k \<or> k \<in> ToLower ` set (?v # ?cands idxs)) =
          (\<lambda>k. seen k \<or> k \<in> ToLower ` set (?cands idxs))"
      using dup(3) by (auto simp: fun_eq_iff)
    moreover have "first_by_key (Collect seen) ToLower (?v # ?cands idxs) =
        first_by_key (Collect seen) ToLower (?cands idxs)"
      using dup(3) by (simp add: first_by_key_Cons)
    ultimately show ?thesis
      unfolding step st c by simp
  next
    case keep
    then have st: "?st = (seen(ToLower ?v := True), add_all results (?emit ?v))"
      by (auto simp: ExtractAll_body_eq Let_def)
    from keep have c: "?cands (idx # idxs) = ?v # ?cands idxs"
      by simp
    have "(\<lambda>k. seen k \<or> k \<in> ToLower ` set (?v # ?cands idxs)) =
          (\<lambda>k. (seen(ToLower ?v := True)) k \<or> k \<in> ToLower ` set (?cands idxs))"
      by (auto simp: fun_eq_iff)
    moreover have "first_by_key (Collect seen) ToLower (?v # ?cands idxs) =
        ?v # first_by_key (insert (ToLower ?v) (Collect seen)) ToLower (?cands idxs)"
      using keep(3) by (simp add: first_by_key_Cons)
    ultimately show ?thesis
      unfolding step st c fst_conv snd_conv Collect_fun_upd_True
      by (simp add: add_all_append add_all_Cons)
  qed
qed

lemma Collect_False [simp]: "Collect (\<lambda>k. False) = {}"
  by simp

lemma ExtractAll_kind_eq:
  "ExtractAll_kind X c text urlRanges results kind =
     add_all results (kind_matches X c text urlRanges kind)"
  by (simp add: ExtractAll_kind_def kind_matches_def kind_retained_def ExtractAll_loop_eq
      split: option.splits)

lemma ExtractAll_url_body_eq:
  "ExtractAll_url_body X c text (urlRanges, results, seen) idx =
     (let v = ExtractAll_url_candidate text idx in
      if url_ignored X c v \<or> seen (ToLower v) then (urlRanges, results, seen)
      else (urlRanges @ [idx], add_all results [\<lparr>Value = v, Type = ''url''\<rparr>], seen(ToLower v := True)))"
  unfolding ExtractAll_url_body_def ExtractAll_url_candidate_def [symmetric] Let_def fst_conv snd_conv
    url_ignored_def [symmetric]
  by (simp add: add_all_single)

lemma ExtractAll_url_loop_eq:
  "foldl (ExtractAll_url_body X c text) (urlRanges, results, seen) idxs =
     (urlRanges @
        first_by_key (Collect seen) (\<lambda>idx. ToLower (ExtractAll_url_candidate text idx))
          (filter (\<lambda>idx. \<not> url_ignored X c (ExtractAll_url_candidate text idx)) idxs),
      add_all results
        (map (\<lambda>idx. \<lparr>Value = ExtractAll_url_candidate text idx, Type = ''url''\<rparr>)
           (first_by_key (Collect seen) (\<lambda>idx. ToLower (ExtractAll_url_candidate text idx))
              (filter (\<lambda>idx. \<not> url_ignored X c (ExtractAll_url_candidate text idx)) idxs))),
      \<lambda>k. seen k \<or> k \<in> (\<lambda>idx. ToLower (ExtractAll_url_candidate text idx)) `
                  set (filter (\<lambda>idx. \<not> url_ignored X c (ExtractAll_url_candidate text idx)) idxs))"
proof (induction idxs arbitrary: urlRanges results seen)
  case Nil
  show ?case by simp
next
  case (Cons idx idxs)
  let ?v = "ExtractAll_url_candidate text idx"
  let ?key = "\<lambda>idx. ToLower (ExtractAll_url_candidate text idx)"
  let ?ok = "\<lambda>idx. \<not> url_ignored X c (ExtractAll_url_candidate text idx)"
  let ?m = "\<lambda>idx. \<lparr>Value = ExtractAll_url_candidate text idx, Type = ''url''\<rparr>"
  let ?st = "ExtractAll_url_body X c text (urlRanges, results, seen) idx"
  have step: "foldl (ExtractAll_url_body X c text) (urlRanges, results, seen) (idx # idxs) =
      (fst ?st @ first_by_key (Collect (snd (snd ?st))) ?key (filter ?ok idxs),
       add_all (fst (snd ?st)) (map ?m (first_by_key (Collect (snd (snd ?st))) ?key (filter ?ok idxs))),
       \<lambda>k. snd (snd ?st) k \<or> k \<in> ?key ` set (filter ?ok idxs))"
    using Cons.IH [of "fst ?st" "fst (snd ?st)" "snd (snd ?st)"] by simp
  consider (out) "url_ignored X c ?v"
    | (dup) "\<not> url_ignored X c ?v" "seen (ToLower ?v)"
    | (keep) "\<not> url_ignored X c ?v" "\<not> seen (ToLower ?v)"
    by blast
  then show ?case
  proof cases
    case out
    then have st: "?st = (urlRanges, results, seen)"
      by (simp add: ExtractAll_url_body_eq Let_def)
    from out show ?thesis
      unfolding step st by simp
  next
    case dup
    then have st: "?st = (urlRanges, results, seen)"
      by (simp add: ExtractAll_url_body_eq Let_def)
    have "(\<lambda>k. seen k \<or> k \<in> ?key ` set (idx # filter ?ok idxs)) =
          (\<lambda>k. seen k \<or> k \<in> ?key ` set (filter ?ok idxs))"
      using dup(2) by (auto simp: fun_eq_iff)
    moreover have "first_by_key (Collect seen) ?key (idx # filter ?ok idxs) =
        first_by_key (Collect seen) ?key (filter ?ok idxs)"
      using dup(2) by (simp add: first_by_key_Cons)
    ultimately show ?thesis
      unfolding step st using dup(1) by simp
  next
    case keep
    then have st: "?st =
        (urlRanges @ [idx], add_all results [?m idx], seen(ToLower ?v := True))"
      by (simp add: ExtractAll_url_body_eq Let_def)
    have "(\<lambda>k. seen k \<or> k \<in> ?key ` set (idx # filter ?ok idxs)) =
          (\<lambda>k. (seen(ToLower ?v := True)) k \<or> k \<in> ?key ` set (filter ?ok idxs))"
      by (auto simp: fun_eq_iff)
    moreover have "first_by_key (Collect seen) ?key (idx # filter ?ok idxs) =
        idx # first_by_key (insert (ToLower ?v) (Collect seen)) ?key (filter ?ok idxs)"
      using keep(2) by (simp add: first_by_key_Cons)
    ultimately show ?thesis
      unfolding step st fst_conv snd_conv Collect_fun_upd_True using keep(1)
      by (simp add: add_all_Cons)
  qed
qed

lemma ExtractAll_urls_eq:
  "ExtractAll_urls X c text = (url_ranges X c text, add_all Map.empty (url_matches X c text))"
  by (simp add: ExtractAll_urls_def url_ranges_def url_matches_def ExtractAll_url_loop_eq Let_def
      split: option.splits)

lemma foldl_ExtractAll_kind:
  "foldl (ExtractAll_kind X c text urlRanges) results kinds =
     add_all results (concat (map (kind_matches X c text urlRanges) kinds))"
  by (induction kinds arbitrary: results) (simp_all add: ExtractAll_kind_eq add_all_append)

lemma ExtractAll_eq:
  "ExtractAll X c text order =
     add_all Map.empty
       (url_matches X c text @ concat (map (kind_matches X c text (url_ranges X c text)) order))"
  by (simp add: ExtractAll_def ExtractAll_urls_eq Let_def foldl_ExtractAll_kind add_all_append)

section \<open>Matches lie inside the text\<close>

lemma rep_le_length:
  assumes f: "\<And>p s n. n \<in> set (f p s) \<Longrightarrow> n \<le> length s"
  shows "n \<in> set (rep f k lo hi p s) \<Longrightarrow> n \<le> length s"
proof (induction k arbitrary: lo hi p s n)
  case 0
  then show ?case by (simp split: if_splits)
next
  case (Suc k)
  from Suc.prems consider (stop) "n = 0"
    | (round) m n' where "m \<in> set (f p s)" "n = m + n'"
        "n' \<in> set (rep f k (lo - 1) (map_option (\<lambda>h. h - 1) hi) (prevAfter p s m) (drop m s))"
    by (auto split: if_splits)
  then show ?case
  proof cases
    case stop
    then show ?thesis by simp
  next
    case round
    from f [OF round(1)] have "m \<le> length s" .
    moreover from Suc.IH [OF round(3)] have "n' \<le> length s - m" by simp
    ultimately show ?thesis using round(2) by simp
  qed
qed

lemma ends_le_length: "n \<in> set (ends ci re p s) \<Longrightarrow> n \<le> length s"
proof (induction re arbitrary: ci p s n)
  case Eps
  then show ?case by simp
next
  case (Cls neg rs)
  then show ?case by (auto split: list.splits if_splits)
next
  case (Seq r1 r2)
  from Seq.prems obtain m n' where m: "m \<in> set (ends ci r1 p s)" "n = m + n'"
      "n' \<in> set (ends ci r2 (prevAfter p s m) (drop m s))"
    by auto
  from Seq.IH(1) [OF m(1)] Seq.IH(2) [OF m(3)] m(2) show ?case by simp
next
  case (Alt r1 r2)
  then show ?case by auto
next
  case (Rep r lo hi)
  from Rep.prems have "n \<in> set (rep (ends ci r) (length s + lo) lo hi p s)" by simp
  then show ?case
    by (rule rep_le_length [rotated]) (rule Rep.IH)
next
  case WordB
  then show ?case by (simp split: if_splits)
next
  case BOT
  then show ?case by (simp split: if_splits)
next
  case EOT
  then show ?case by (simp split: if_splits)
next
  case (Fold r)
  then show ?case by simp
qed

lemma doExecute_bounds:
  "doExecute re p s pos = Some m \<Longrightarrow> pos \<le> fst m \<and> fst m \<le> snd m \<and> snd m \<le> pos + length s"
proof (induction s arbitrary: p pos)
  case Nil
  show ?case
  proof (cases "ends False re p []")
    case Nil
    with Nil.prems show ?thesis by simp
  next
    case (Cons n ns)
    then have "n \<in> set (ends False re p [])" by simp
    from ends_le_length [OF this] Cons Nil.prems show ?thesis by auto
  qed
next
  case (Cons a s)
  show ?case
  proof (cases "ends False re p (a # s)")
    case Nil
    with Cons.prems have "doExecute re (Some a) s (Suc pos) = Some m" by simp
    from Cons.IH [OF this] show ?thesis by simp
  next
    case (Cons n ns)
    then have "n \<in> set (ends False re p (a # s))" by simp
    from ends_le_length [OF this] Cons Cons.prems show ?thesis by auto
  qed
qed

lemma executeAt_bounds:
  assumes "executeAt re s pos = Some m" "pos \<le> length s"
  shows "pos \<le> fst m \<and> fst m \<le> snd m \<and> snd m \<le> length s"
  using doExecute_bounds [of re _ "drop pos s" pos m] assms
  unfolding executeAt_def by auto

lemma allMatches_bounds:
  "m \<in> set (allMatches re s pos prev) \<Longrightarrow> fst m \<le> snd m \<and> snd m \<le> length s"
proof (induction re s pos prev rule: allMatches.induct)
  case (1 re s pos prevMatchEnd)
  show ?case
  proof (cases "length s < pos")
    case True
    with "1.prems" show ?thesis by (simp add: allMatches.simps)
  next
    case False
    show ?thesis
    proof (cases "executeAt re s pos")
      case None
      with False "1.prems" show ?thesis by (simp add: allMatches.simps)
    next
      case (Some m')
      from executeAt_bounds [OF Some] False
      have b: "fst m' \<le> snd m' \<and> snd m' \<le> length s" by simp
      show ?thesis
      proof (cases "snd m' = pos")
        case True
        with False Some "1.prems"
        have "m = m' \<or> m \<in> set (allMatches re s (pos + 1) (Some (snd m')))"
          by (subst (asm) allMatches.simps) (auto split: if_splits)
        with "1.IH"(1) [OF False Some True] b show ?thesis by auto
      next
        case ne: False
        with False Some "1.prems"
        have "m = m' \<or> m \<in> set (allMatches re s (snd m') (Some (snd m')))"
          by (subst (asm) allMatches.simps) (auto split: if_splits)
        with "1.IH"(2) [OF False Some ne] b show ?thesis by auto
      qed
    qed
  qed
qed

lemma FindAllStringIndex_bounds:
  "m \<in> set (FindAllStringIndex re s) \<Longrightarrow> fst m \<le> snd m \<and> snd m \<le> length s"
  unfolding FindAllStringIndex_def by (rule allMatches_bounds)

lemma kind_matches_covered:
  assumes "(0, length text) \<in> set urlRanges"
  shows "kind_matches X c text urlRanges kind = []"
proof -
  have "filter (\<lambda>idx. \<not> isInsideUrl urlRanges idx) (FindAllStringIndex re text) = []" for re
    using assms
    by (auto simp: filter_empty_conv isInsideUrl_def list_ex_iff dest!: FindAllStringIndex_bounds
        intro!: bexI [of _ "(0, length text)"])
  then show ?thesis
    by (simp add: kind_matches_def kind_retained_def split: option.splits)
qed

lemma ExtractAll_body_overlap:
  "foldl (ExtractAll_body X c text urlRanges kind) st idxs =
   foldl (ExtractAll_body X c text [] kind) st (filter (\<lambda>idx. \<not> isInsideUrl urlRanges idx) idxs)"
proof (induction idxs arbitrary: st)
  case Nil
  show ?case by simp
next
  case (Cons idx idxs)
  have inside: "ExtractAll_body X c text urlRanges kind st idx = st" if "isInsideUrl urlRanges idx"
    using that by (simp add: ExtractAll_body_def Let_def)
  have outside: "ExtractAll_body X c text urlRanges kind st idx = ExtractAll_body X c text [] kind st idx"
    if "\<not> isInsideUrl urlRanges idx"
    using that by (simp add: ExtractAll_body_def Let_def isInsideUrl_def)
  show ?case
    by (cases "isInsideUrl urlRanges idx") (simp_all add: inside outside Cons.IH)
qed

lemma url_example_matches: "FindAllStringIndex url_re ''http://example.com/page'' = [(0, 23)]"
  by code_simp

section \<open>The results of ExtractAll, key by key\<close>

lemma some_list_eq_None [simp]: "some_list xs = None \<longleftrightarrow> xs = []"
  by (simp add: some_list_def)

lemma add_all_empty_at: "add_all Map.empty ms k = some_list (filter (\<lambda>m. Type m = k) ms)"
  by (simp add: add_all_at some_list_def lookup_matches_def)

lemma ExtractAll_at:
  "ExtractAll X c text order k =
     some_list (filter (\<lambda>m. Type m = k)
       (url_matches X c text @ concat (map (kind_matches X c text (url_ranges X c text)) order)))"
  by (simp only: ExtractAll_eq add_all_empty_at)

lemma url_matches_Type: "m \<in> set (url_matches X c text) \<Longrightarrow> Type m = ''url''"
  by (auto simp: url_matches_def)

lemma kind_matches_Type:
  "m \<in> set (kind_matches X c text ur kind) \<Longrightarrow>
     kind \<noteq> ''url'' \<and> (Type m = kind \<or> (Type m = ''base_domain'' \<and> kind = ''domain''))"
  by (auto simp: kind_matches_def split: if_splits option.splits dest: ExtractAll_bases_Type)

lemma filter_url_matches:
  "filter (\<lambda>m. Type m = k) (url_matches X c text) = (if k = ''url'' then url_matches X c text else [])"
  by (auto simp: filter_empty_conv filter_id_conv dest: url_matches_Type)

lemma filter_kind_matches_other:
  assumes "kind \<noteq> k" "k \<noteq> ''base_domain'' \<or> kind \<noteq> ''domain''"
  shows "filter (\<lambda>m. Type m = k) (kind_matches X c text ur kind) = []"
  using assms by (auto simp: filter_empty_conv dest: kind_matches_Type)

lemma filter_kind_matches_url:
  "filter (\<lambda>m. Type m = ''url'') (kind_matches X c text ur kind) = []"
  by (auto simp: filter_empty_conv dest: kind_matches_Type)

lemma filter_concat_emits:
  assumes "\<And>v m. m \<in> set (bs v) \<Longrightarrow> \<not> P m" "\<And>v. P (f v)"
  shows "filter P (concat (map (\<lambda>v. bs v @ [f v]) vs)) = map f vs"
  using assms by (induction vs) (auto simp: filter_empty_conv)

lemma filter_concat_bases:
  assumes "\<And>v m. m \<in> set (bs v) \<Longrightarrow> P m" "\<And>v. \<not> P (f v)"
  shows "filter P (concat (map (\<lambda>v. bs v @ [f v]) vs)) = concat (map bs vs)"
  using assms by (induction vs) (auto simp: filter_id_conv)

lemma filter_kind_matches_own:
  assumes "k \<noteq> ''url''" "k \<noteq> ''base_domain''"
  shows "filter (\<lambda>m. Type m = k) (kind_matches X c text ur k) =
     (case Expressions c k of
        None \<Rightarrow> []
      | Some regex \<Rightarrow> map (\<lambda>v. \<lparr>Value = v, Type = k\<rparr>) (kind_retained X c text ur k regex))"
proof (cases "Expressions c k")
  case None
  then show ?thesis by (simp add: kind_matches_def)
next
  case (Some regex)
  have "filter (\<lambda>m. Type m = k)
          (concat (map (\<lambda>v. ExtractAll_bases X c k v @ [\<lparr>Value = v, Type = k\<rparr>])
             (kind_retained X c text ur k regex))) =
        map (\<lambda>v. \<lparr>Value = v, Type = k\<rparr>) (kind_retained X c text ur k regex)"
    using assms(2) by (intro filter_concat_emits) (auto dest: ExtractAll_bases_Type)
  with Some assms(1) show ?thesis by (simp add: kind_matches_def)
qed

lemma filter_kind_matches_base:
  assumes "Expressions c ''domain'' = Some regex"
  shows "filter (\<lambda>m. Type m = ''base_domain'') (kind_matches X c text ur ''domain'') =
     concat (map (ExtractAll_bases X c ''domain'') (kind_retained X c text ur ''domain'' regex))"
proof -
  have "filter (\<lambda>m. Type m = ''base_domain'')
          (concat (map (\<lambda>v. ExtractAll_bases X c ''domain'' v @ [\<lparr>Value = v, Type = ''domain''\<rparr>])
             (kind_retained X c text ur ''domain'' regex))) =
        concat (map (ExtractAll_bases X c ''domain'') (kind_retained X c text ur ''domain'' regex))"
    by (intro filter_concat_bases) (auto dest: ExtractAll_bases_Type)
  with assms show ?thesis by (simp add: kind_matches_def)
qed

lemma concat_map_single:
  assumes "distinct xs" "\<And>x. x \<in> set xs \<Longrightarrow> x \<noteq> a \<Longrightarrow> f x = []"
  shows "concat (map f xs) = (if a \<in> set xs then f a else [])"
  using assms by (induction xs) auto

lemma ExtractAll_at_url: "ExtractAll X c text order ''url'' = some_list (url_matches X c text)"
proof -
  have "filter (\<lambda>m. Type m = ''url'') (concat (map (kind_matches X c text (url_ranges X c text)) order)) = []"
    by (auto simp: filter_empty_conv dest: kind_matches_Type)
  then show ?thesis
    by (simp add: ExtractAll_at filter_url_matches)
qed

lemma ExtractAll_at_kind:
  assumes "distinct order" "k \<noteq> ''url''" "k \<noteq> ''base_domain''"
  shows "ExtractAll X c text order k =
     (if k \<in> set order
      then (case Expressions c k of
              None \<Rightarrow> None
            | Some regex \<Rightarrow>
                some_list (map (\<lambda>v. \<lparr>Value = v, Type = k\<rparr>)
                  (kind_retained X c text (url_ranges X c text) k regex)))
      else None)"
proof -
  let ?ur = "url_ranges X c text"
  let ?f = "\<lambda>kind. filter (\<lambda>m. Type m = k) (kind_matches X c text ?ur kind)"
  have "filter (\<lambda>m. Type m = k) (concat (map (kind_matches X c text ?ur) order)) =
      concat (map ?f order)"
    by (simp add: filter_concat o_def)
  also have "\<dots> = (if k \<in> set order then ?f k else [])"
    using assms(1,3) by (intro concat_map_single) (auto simp: filter_kind_matches_other)
  finally show ?thesis
    using assms(2,3)
    by (simp add: ExtractAll_at filter_url_matches filter_kind_matches_own split: option.splits)
qed

lemma ExtractAll_at_base_domain:
  assumes "distinct order" "Expressions c ''base_domain'' = None"
  shows "ExtractAll X c text order ''base_domain'' =
     (if ''domain'' \<in> set order
      then (case Expressions c ''domain'' of
              None \<Rightarrow> None
            | Some regex \<Rightarrow>
                some_list (concat (map (ExtractAll_bases X c ''domain'')
                  (kind_retained X c text (url_ranges X c text) ''domain'' regex))))
      else None)"
proof -
  let ?ur = "url_ranges X c text"
  let ?f = "\<lambda>kind. filter (\<lambda>m. Type m = ''base_domain'') (kind_matches X c text ?ur kind)"
  have own: "?f ''base_domain'' = []"
    using assms(2) by (simp add: kind_matches_def)
  have "filter (\<lambda>m. Type m = ''base_domain'') (concat (map (kind_matches X c text ?ur) order)) =
      concat (map ?f order)"
    by (simp add: filter_concat o_def)
  also have "\<dots> = (if ''domain'' \<in> set order then ?f ''domain'' else [])"
  proof (intro concat_map_single assms(1))
    fix x assume "x \<in> set order" "x \<noteq> ''domain''"
    then show "?f x = []"
      using own by (cases "x = ''base_domain''") (simp_all add: filter_kind_matches_other)
  qed
  finally show ?thesis
    by (cases "Expressions c ''domain''")
      (simp_all add: ExtractAll_at filter_url_matches filter_kind_matches_base,
       simp add: kind_matches_def)
qed

section \<open>The filters of the two paths, kind by kind\<close>

lemma isDomainIgnored_no_domains:
  "IgnoredDomains (Checks c) = {} \<Longrightarrow> \<not> isDomainIgnored c d"
  by (simp add: isDomainIgnored_iff)

lemma url_ignored_no_domains:
  "IgnoredDomains (Checks c) = {} \<Longrightarrow> \<not> url_ignored X c v"
  by (simp add: url_ignored_def isDomainIgnored_no_domains split: option.splits)

lemma GetMatches_kept_domain:
  "GetMatches_kept X c ''domain'' v \<longleftrightarrow> \<not> isDomainIgnored c (ToLower v) \<and> v \<noteq> []"
  by (simp add: GetMatches_kept_def GetMatches_switch_def split: option.splits)

lemma GetMatches_kept_filepath:
  "GetMatches_kept X c ''filepath'' v \<longleftrightarrow>
     \<not> (HasPrefix (ToLower v) ''http'' \<or> HasPrefix (ToLower v) ''www'' \<or> HasPrefix (ToLower v) ''ftp'') \<and>
     v \<noteq> []"
  by (simp add: GetMatches_kept_def GetMatches_switch_def)

lemma GetMatches_kept_ipv4:
  "GetMatches_kept X c ''ipv4'' v \<longleftrightarrow>
     \<not> (IgnorePrivateIPs (Checks c) \<and> isPrivateIP X v) \<and> v \<noteq> []"
  by (simp add: GetMatches_kept_def GetMatches_switch_def)

lemma GetMatches_kept_url:
  "GetMatches_kept X c ''url'' v \<longleftrightarrow> \<not> url_ignored X c v \<and> v \<noteq> []"
  by (simp add: GetMatches_kept_def GetMatches_switch_def url_ignored_def split: option.splits)

lemma ExtractAll_kept_domain:
  "ExtractAll_kept X c ''domain'' v \<longleftrightarrow> \<not> isDomainIgnored c (ToLower v)"
  by (simp add: ExtractAll_kept_def ExtractAll_switch_def split: option.splits)

lemma ExtractAll_kept_filepath:
  "ExtractAll_kept X c ''filepath'' v \<longleftrightarrow>
     \<not> (HasPrefix (ToLower v) ''http'' \<or> HasPrefix (ToLower v) ''www'')"
  by (simp add: ExtractAll_kept_def ExtractAll_switch_def)

lemma ExtractAll_kept_ipv4:
  "ExtractAll_kept X c ''ipv4'' v \<longleftrightarrow> \<not> (IgnorePrivateIPs (Checks c) \<and> isPrivateIP X v)"
  by (simp add: ExtractAll_kept_def ExtractAll_switch_def)

lemma GetMatches_bases_domain:
  "GetMatches_bases X c ''domain'' v =
     (if isDomainIgnored c (ToLower v) then []
      else (case extractSecondLevelDomain X (ToLower v) of
              None \<Rightarrow> []
            | Some b \<Rightarrow>
                if b \<noteq> [] \<and> b \<noteq> ToLower v \<and> \<not> isDomainIgnored c b
                then [\<lparr>Value = b, Type = ''base_domain''\<rparr>] else []))"
  by (simp add: GetMatches_bases_def GetMatches_switch_def split: option.splits)

lemma GetMatches_bases_other:
  assumes "kind \<noteq> ''domain''"
  shows "GetMatches_bases X c kind v = []"
proof (rule ccontr)
  assume "GetMatches_bases X c kind v \<noteq> []"
  then obtain m where "m \<in> set (GetMatches_bases X c kind v)"
    by (cases "GetMatches_bases X c kind v") auto
  from GetMatches_bases_Type [OF this] assms show False by simp
qed

lemma ExtractAll_bases_domain:
  "ExtractAll_bases X c ''domain'' v =
     (if isDomainIgnored c (ToLower v) then []
      else (case extractSecondLevelDomain X (ToLower v) of
              None \<Rightarrow> []
            | Some b \<Rightarrow>
                if b \<noteq> [] \<and> b \<noteq> ToLower v \<and> \<not> isDomainIgnored c b
                then [\<lparr>Value = b, Type = ''base_domain''\<rparr>] else []))"
  by (simp add: ExtractAll_bases_def ExtractAll_switch_def lookup_matches_def append_result_def
      split: option.splits)

lemma GetMatches_primaries:
  "filter (\<lambda>m. Type m = kind) (GetMatches X c text kind regex) =
     map (\<lambda>v. \<lparr>Value = GetMatches_value kind v, Type = kind\<rparr>)
       (first_by_key {} ToLower
          (filter (GetMatches_kept X c kind)
             (map (GetMatches_candidate kind) (FindAllString regex text))))"
  unfolding GetMatches_def by (simp add: GetMatches_loop_primaries)

lemma GetMatches_no_bases:
  assumes "kind \<noteq> ''domain''"
  shows "filter (\<lambda>m. Type m = kind) (GetMatches X c text kind regex) = GetMatches X c text kind regex"
proof -
  have "\<forall>m \<in> set (snd (foldl (GetMatches_body X c kind) (seen, rs) ms)). Type m = kind"
    if "\<forall>m \<in> set rs. Type m = kind" for seen rs ms
    using that
  proof (induction ms arbitrary: seen rs)
    case Nil
    then show ?case by simp
  next
    case (Cons a ms)
    have "\<forall>m \<in> set (snd (GetMatches_body X c kind (seen, rs) a)). Type m = kind"
      using Cons.prems assms
      by (auto simp: GetMatches_body_eq Let_def GetMatches_bases_other)
    from Cons.IH [OF this, of "fst (GetMatches_body X c kind (seen, rs) a)"]
    show ?case by simp
  qed
  from this [of "[]" "\<lambda>k. False" "FindAllString regex text"]
  show ?thesis
    by (simp add: GetMatches_def filter_id_conv)
qed

lemma GetMatches_eq_primaries:
  assumes "kind \<noteq> ''domain''"
  shows "GetMatches X c text kind regex =
     map (\<lambda>v. \<lparr>Value = GetMatches_value kind v, Type = kind\<rparr>)
       (first_by_key {} ToLower
          (filter (GetMatches_kept X c kind)
             (map (GetMatches_candidate kind) (FindAllString regex text))))"
  using GetMatches_primaries [of kind X c "text" regex]
    GetMatches_no_bases [OF assms, of X c "text" regex]
  by simp

lemma GetMatches_loop_all:
  assumes "[] \<notin> set (map (GetMatches_candidate kind) ms)"
  shows "snd (foldl (GetMatches_body X c kind) (seen, rs) ms) =
     rs @ concat (map (\<lambda>v. GetMatches_bases X c kind v @ [\<lparr>Value = GetMatches_value kind v, Type = kind\<rparr>])
       (first_by_key (Collect seen) ToLower
          (filter (GetMatches_kept X c kind) (map (GetMatches_candidate kind) ms))))"
  using assms
proof (induction ms arbitrary: seen rs)
  case Nil
  show ?case by simp
next
  case (Cons match0 ms)
  let ?v = "GetMatches_candidate kind match0"
  let ?rest = "filter (GetMatches_kept X c kind) (map (GetMatches_candidate kind) ms)"
  let ?emit = "\<lambda>v. GetMatches_bases X c kind v @ [\<lparr>Value = GetMatches_value kind v, Type = kind\<rparr>]"
  let ?st = "GetMatches_body X c kind (seen, rs) match0"
  from Cons.prems have ne: "?v \<noteq> []" and rest: "[] \<notin> set (map (GetMatches_candidate kind) ms)"
    by auto
  have step: "snd (foldl (GetMatches_body X c kind) (seen, rs) (match0 # ms)) =
      snd ?st @ concat (map ?emit (first_by_key (Collect (fst ?st)) ToLower ?rest))"
    using Cons.IH [OF rest, of "fst ?st" "snd ?st"] by simp
  consider (dup) "seen (ToLower ?v)"
    | (drop) "\<not> seen (ToLower ?v)" "\<not> GetMatches_kept X c kind ?v"
    | (keep) "\<not> seen (ToLower ?v)" "GetMatches_kept X c kind ?v"
    by blast
  then show ?case
  proof cases
    case dup
    then have st: "?st = (seen, rs)"
      by (simp add: GetMatches_body_eq Let_def)
    have "first_by_key (Collect seen) ToLower
            (filter (GetMatches_kept X c kind) (map (GetMatches_candidate kind) (match0 # ms))) =
          first_by_key (Collect seen) ToLower ?rest"
      using dup by (simp add: first_by_key_Cons)
    then show ?thesis
      unfolding step st by simp
  next
    case drop
    with ne have st: "?st = (seen, rs)"
      by (auto simp: GetMatches_body_eq Let_def GetMatches_kept_def)
    from drop show ?thesis
      unfolding step st by simp
  next
    case keep
    with ne have st: "?st = (seen(ToLower ?v := True), rs @ ?emit ?v)"
      by (auto simp: GetMatches_body_eq Let_def GetMatches_kept_def)
    have "first_by_key (Collect seen) ToLower
            (filter (GetMatches_kept X c kind) (map (GetMatches_candidate kind) (match0 # ms))) =
          ?v # first_by_key (insert (ToLower ?v) (Collect seen)) ToLower ?rest"
      using keep by (simp add: first_by_key_Cons)
    then show ?thesis
      unfolding step st fst_conv snd_conv Collect_fun_upd_True by simp
  qed
qed

lemma GetMatches_eq:
  assumes "[] \<notin> set (map (GetMatches_candidate kind) (FindAllString regex text))"
  shows "GetMatches X c text kind regex =
     concat (map (\<lambda>v. GetMatches_bases X c kind v @ [\<lparr>Value = GetMatches_value kind v, Type = kind\<rparr>])
       (first_by_key {} ToLower
          (filter (GetMatches_kept X c kind)
             (map (GetMatches_candidate kind) (FindAllString regex text)))))"
  unfolding GetMatches_def using GetMatches_loop_all [OF assms, of X c "\<lambda>k. False" "[]"] by simp

lemma NewContextualizer_dom:
  "dom (Expressions (NewContextualizer a b d)) =
     {''md5'', ''sha1'', ''sha256'', ''sha512'', ''ipv4'', ''ipv6'', ''email'', ''url'',
      ''domain'', ''filepath'', ''filename''}"
  by (auto simp: NewContextualizer_def split: if_splits)

lemma table_order_iteration: "iteration_order (NewContextualizer a b d) table_order"
  by (auto simp: iteration_order_def NewContextualizer_dom table_order_def)

lemma NewContextualizer_no_domains [simp]:
  "IgnoredDomains (Checks (NewContextualizer a [] d)) = {}"
  by (simp add: NewContextualizer_def)

lemma GetMatches_body_domain:
  assumes "\<not> seen (ToLower v)" "v \<noteq> []" "\<not> isDomainIgnored c (ToLower v)"
  shows "GetMatches_body X c ''domain'' (seen, rs) v =
     (seen(ToLower v := True),
      rs @ GetMatches_bases X c ''domain'' v @ [\<lparr>Value = ToLower v, Type = ''domain''\<rparr>])"
proof -
  have "GetMatches_kept X c ''domain'' v"
    using assms by (simp add: GetMatches_kept_domain)
  then have "GetMatches_switch X c ''domain'' v (ToLower v) [] \<noteq> None"
    by (simp add: GetMatches_kept_def)
  with assms show ?thesis
    by (simp add: GetMatches_body_eq GetMatches_candidate_def GetMatches_value_def Let_def)
qed

lemma ExtractAll_body_domain:
  assumes "\<not> isInsideUrl ur idx" "\<not> seen (ToLower (ExtractAll_candidate text idx))"
    and "\<not> isDomainIgnored c (ToLower (ExtractAll_candidate text idx))"
  shows "ExtractAll_body X c text ur ''domain'' (seen, results) idx =
     (seen(ToLower (ExtractAll_candidate text idx) := True),
      append_result
        (add_all results (ExtractAll_bases X c ''domain'' (ExtractAll_candidate text idx)))
        ''domain'' \<lparr>Value = ExtractAll_candidate text idx, Type = ''domain''\<rparr>)"
  using assms
  by (simp add: ExtractAll_body_eq Let_def ExtractAll_kept_domain add_all_append add_all_Cons)

section \<open>Filters that read the case-folded value\<close>

lemma first_by_key_insert_filter:
  assumes "\<And>y. y \<in> set xs \<Longrightarrow> key y = k \<Longrightarrow> \<not> P y"
  shows "filter P (first_by_key (insert k S) key xs) = filter P (first_by_key S key xs)"
  using assms
proof (induction xs arbitrary: S)
  case Nil
  show ?case by simp
next
  case (Cons x xs)
  have IH: "filter P (first_by_key (insert k T) key xs) = filter P (first_by_key T key xs)" for T
    using Cons.prems by (intro Cons.IH) simp
  show ?case
  proof (cases "key x = k")
    case True
    with Cons.prems have "\<not> P x" by simp
    with True show ?thesis
      by (simp add: first_by_key_Cons IH insert_absorb)
  next
    case False
    then show ?thesis
      using IH [of "insert (key x) S"] IH [of S] by (simp add: first_by_key_Cons insert_commute)
  qed
qed

lemma first_by_key_filter:
  assumes "\<And>x y. x \<in> set xs \<Longrightarrow> y \<in> set xs \<Longrightarrow> key x = key y \<Longrightarrow> P x = P y"
  shows "first_by_key S key (filter P xs) = filter P (first_by_key S key xs)"
  using assms
proof (induction xs arbitrary: S)
  case Nil
  show ?case by simp
next
  case (Cons x xs)
  have IH: "first_by_key T key (filter P xs) = filter P (first_by_key T key xs)" for T
    using Cons.prems by (intro Cons.IH) simp_all
  show ?case
  proof (cases "P x")
    case True
    then show ?thesis
      by (simp add: first_by_key_Cons IH)
  next
    case False
    have "\<not> P y" if "y \<in> set xs" "key y = key x" for y
      using Cons.prems [of y x] that False by simp
    then have "filter P (first_by_key (insert (key x) S) key xs) = filter P (first_by_key S key xs)"
      by (intro first_by_key_insert_filter) simp_all
    with False show ?thesis
      by (simp add: first_by_key_Cons IH)
  qed
qed

lemma isDomainIgnored_fold: "isDomainIgnored c (ToLower d) = isDomainIgnored c d"
  by (simp add: isDomainIgnored_def)

lemma url_ignored_fold: "ToLower v = ToLower v' \<Longrightarrow> url_ignored X c v = url_ignored X c v'"
  by (simp add: url_ignored_def)

lemma GetMatches_kept_fold:
  assumes "kind \<noteq> ''ipv4''" "ToLower v = ToLower v'"
  shows "GetMatches_kept X c kind v = GetMatches_kept X c kind v'"
proof -
  from assms(2) have "v = [] \<longleftrightarrow> v' = []"
    by (metis ToLower_Nil_iff)
  with assms show ?thesis
    by (simp add: GetMatches_kept_def GetMatches_switch_def)
qed

lemma ExtractAll_kept_fold:
  assumes "kind \<noteq> ''ipv4''" "ToLower v = ToLower v'"
  shows "ExtractAll_kept X c kind v = ExtractAll_kept X c kind v'"
  using assms by (simp add: ExtractAll_kept_def ExtractAll_switch_def)

lemma GetMatches_kept_stable:
  assumes "kind \<noteq> ''ipv4'' \<or> (\<forall>v \<in> set xs. ToLower v = v)"
    and "x \<in> set xs" "y \<in> set xs" "ToLower x = ToLower y"
  shows "GetMatches_kept X c kind x = GetMatches_kept X c kind y"
proof (cases "kind = ''ipv4''")
  case True
  with assms have "x = y" by auto
  then show ?thesis by simp
next
  case False
  from GetMatches_kept_fold [OF False assms(4)] show ?thesis .
qed

lemma ExtractAll_kept_stable:
  assumes "kind \<noteq> ''ipv4'' \<or> (\<forall>v \<in> set xs. ToLower v = v)"
    and "x \<in> set xs" "y \<in> set xs" "ToLower x = ToLower y"
  shows "ExtractAll_kept X c kind x = ExtractAll_kept X c kind y"
proof (cases "kind = ''ipv4''")
  case True
  with assms have "x = y" by auto
  then show ?thesis by simp
next
  case False
  from ExtractAll_kept_fold [OF False assms(4)] show ?thesis .
qed

section \<open>Suffix matching of ignored domains\<close>

lemma label_suffix_examples:
  "label_suffix ''sub.example.com'' ''example.com''"
  "label_suffix ''a.b.example.com'' ''example.com''"
  unfolding label_suffix_def
  by (rule exI [of _ "''sub.''"], simp) (rule exI [of _ "''a.b.''"], simp)

lemma label_suffix_notexample:
  "label_suffix ''notexample.com'' t \<longleftrightarrow> t = ''notexample.com'' \<or> t = ''com''"
proof -
  have i: "Index ''notexample.com'' ''.'' = Some 10" by (simp add: HasPrefix_def)
  have n: "Index ''com'' ''.'' = None" by (simp add: HasPrefix_def)
  show ?thesis
    using label_suffix_step [OF i, of t] label_suffix_nodot [OF n, of t] by auto
qed


text \<open>
  Claim C1, as amended. \<^verbatim>\<open>isDomainIgnored\<close> returns true for a domain \<open>d\<close> exactly when,
  after case-folding \<open>d\<close> and stripping one trailing dot, a suffix of it obtained by
  dropping leftmost labels is in the ignored-domain set. For every ignore set that
  contains \<^verbatim>\<open>example.com\<close> it returns true for \<^verbatim>\<open>sub.example.com\<close> and
  \<^verbatim>\<open>a.b.example.com\<close>. It returns false for \<^verbatim>\<open>notexample.com\<close> whenever neither
  \<^verbatim>\<open>notexample.com\<close> nor \<^verbatim>\<open>com\<close> is in the ignore set: \<^verbatim>\<open>example.com\<close> in the set
  does not make \<^verbatim>\<open>notexample.com\<close> ignored. Both paths apply the check to a domain
  candidate, to the domain part of an email candidate and to the host name of a URL
  candidate, and drop the candidate when it returns true.
\<close>

theorem isDomainIgnored_suffix_match:
  "(isDomainIgnored c d \<longleftrightarrow>
      (\<exists>t. label_suffix (TrimSuffix (ToLower d) ''.'') t \<and> t \<in> IgnoredDomains (Checks c))) \<and>
   (''example.com'' \<in> IgnoredDomains (Checks c) \<longrightarrow>
      isDomainIgnored c ''sub.example.com'' \<and> isDomainIgnored c ''a.b.example.com'') \<and>
   (''notexample.com'' \<notin> IgnoredDomains (Checks c) \<and> ''com'' \<notin> IgnoredDomains (Checks c) \<longrightarrow>
      \<not> isDomainIgnored c ''notexample.com'') \<and>
   (isDomainIgnored c (ToLower v) \<longrightarrow>
      GetMatches_switch X c ''domain'' v (ToLower v) rs = None \<and>
      ExtractAll_switch X c ''domain'' v (ToLower v) results = None) \<and>
   (SplitByte (ToLower v) CHR ''@'' = [l, h] \<and> isDomainIgnored c h \<longrightarrow>
      GetMatches_switch X c ''email'' v (ToLower v) rs = None \<and>
      ExtractAll_switch X c ''email'' v (ToLower v) results = None) \<and>
   (url_Parse_Hostname X (ToLower v) = Some h \<and> isDomainIgnored c h \<longrightarrow>
      GetMatches_switch X c ''url'' v (ToLower v) rs = None) \<and>
   (url_Parse_Hostname X (ToLower (ExtractAll_url_candidate text idx)) = Some h \<and>
    isDomainIgnored c h \<longrightarrow>
      ExtractAll_url_body X c text st idx = st)"
proof (intro conjI impI)
  show "isDomainIgnored c d \<longleftrightarrow>
      (\<exists>t. label_suffix (TrimSuffix (ToLower d) ''.'') t \<and> t \<in> IgnoredDomains (Checks c))"
    by (rule isDomainIgnored_iff)
next
  assume ex: "''example.com'' \<in> IgnoredDomains (Checks c)"
  have "TrimSuffix (ToLower ''sub.example.com'') ''.'' = ''sub.example.com''"
    by (simp add: string_simps)
  with ex label_suffix_examples(1) show "isDomainIgnored c ''sub.example.com''"
    unfolding isDomainIgnored_iff by auto
next
  assume ex: "''example.com'' \<in> IgnoredDomains (Checks c)"
  have "TrimSuffix (ToLower ''a.b.example.com'') ''.'' = ''a.b.example.com''"
    by (simp add: string_simps)
  with ex label_suffix_examples(2) show "isDomainIgnored c ''a.b.example.com''"
    unfolding isDomainIgnored_iff by auto
next
  assume no: "''notexample.com'' \<notin> IgnoredDomains (Checks c) \<and> ''com'' \<notin> IgnoredDomains (Checks c)"
  have "TrimSuffix (ToLower ''notexample.com'') ''.'' = ''notexample.com''"
    by (simp add: string_simps)
  with no show "\<not> isDomainIgnored c ''notexample.com''"
    unfolding isDomainIgnored_iff by (auto simp: label_suffix_notexample)
next
  assume "isDomainIgnored c (ToLower v)"
  then show "GetMatches_switch X c ''domain'' v (ToLower v) rs = None"
    and "ExtractAll_switch X c ''domain'' v (ToLower v) results = None"
    by (simp_all add: GetMatches_switch_def ExtractAll_switch_def)
next
  assume "SplitByte (ToLower v) CHR ''@'' = [l, h] \<and> isDomainIgnored c h"
  then show "GetMatches_switch X c ''email'' v (ToLower v) rs = None"
    and "ExtractAll_switch X c ''email'' v (ToLower v) results = None"
    by (simp_all add: GetMatches_switch_def ExtractAll_switch_def)
next
  assume "url_Parse_Hostname X (ToLower v) = Some h \<and> isDomainIgnored c h"
  then show "GetMatches_switch X c ''url'' v (ToLower v) rs = None"
    by (simp add: GetMatches_switch_def)
next
  assume "url_Parse_Hostname X (ToLower (ExtractAll_url_candidate text idx)) = Some h \<and>
    isDomainIgnored c h"
  then have "url_ignored X c (ExtractAll_url_candidate text idx)"
    by (simp add: url_ignored_def)
  then show "ExtractAll_url_body X c text st idx = st"
    using ExtractAll_url_body_eq [of X c "text" "fst st" "fst (snd st)" "snd (snd st)" idx]
    by (simp add: Let_def)
qed

text \<open>
  The theorem at the extractor of the repository's test, which ignores
  \<^verbatim>\<open>nullferatu.com\<close> and \<^verbatim>\<open>google.com\<close>, and at an extractor that ignores
  \<^verbatim>\<open>.Example.com\<close>.
\<close>

theorem isDomainIgnored_suffix_match_witness:
  "isDomainIgnored (NewContextualizer False [''.Example.com''] []) ''Sub.Example.COM.'' \<and>
   isDomainIgnored (NewContextualizer False [''.Example.com''] []) ''a.b.example.com'' \<and>
   \<not> isDomainIgnored (NewContextualizer False [''.Example.com''] []) ''notexample.com'' \<and>
   GetMatches_switch stdlib (NewContextualizer True [''nullferatu.com'', ''google.com''] [''admin@test.com''])
     ''domain'' ''fair.nullferatu.com'' ''fair.nullferatu.com'' [] = None \<and>
   GetMatches_switch stdlib (NewContextualizer True [''nullferatu.com'', ''google.com''] [''admin@test.com''])
     ''email'' ''support@nullferatu.com'' ''support@nullferatu.com'' [] = None \<and>
   GetMatches_switch stdlib (NewContextualizer True [''nullferatu.com'', ''google.com''] [''admin@test.com''])
     ''url'' ''https://fair.nullferatu.com/path'' ''https://fair.nullferatu.com/path'' [] = None \<and>
   ExtractAll_url_body stdlib
     (NewContextualizer True [''nullferatu.com'', ''google.com''] [''admin@test.com''])
     ''https://fair.nullferatu.com/path'' ([], Map.empty, \<lambda>k. False) (0, 32) =
       ([], Map.empty, \<lambda>k. False)"
proof -
  let ?c = "NewContextualizer False [''.Example.com''] []"
  let ?n = "NewContextualizer True [''nullferatu.com'', ''google.com''] [''admin@test.com'']"
  have ig: "IgnoredDomains (Checks ?c) = {''example.com''}"
    by (simp add: NewContextualizer_def string_simps)
  have ls: "label_suffix (TrimSuffix (ToLower ''Sub.Example.COM.'') ''.'') ''example.com''"
    unfolding label_suffix_def by (rule exI [of _ "''sub.''"]) (simp add: string_simps)
  from isDomainIgnored_suffix_match [of ?c "''Sub.Example.COM.''"] ig ls
  have one: "isDomainIgnored ?c ''Sub.Example.COM.'' \<and> isDomainIgnored ?c ''a.b.example.com'' \<and>
      \<not> isDomainIgnored ?c ''notexample.com''"
    by auto
  have low: "ToLower ''fair.nullferatu.com'' = ''fair.nullferatu.com''"
      "ToLower ''support@nullferatu.com'' = ''support@nullferatu.com''"
      "ToLower ''https://fair.nullferatu.com/path'' = ''https://fair.nullferatu.com/path''"
    by (simp_all add: string_simps)
  have ign: "isDomainIgnored ?n ''fair.nullferatu.com''" "isDomainIgnored ?n ''nullferatu.com''"
    by (simp_all add: isDomainIgnored_def NewContextualizer_def isDomainIgnored_loop.simps
        string_simps)
  have split: "SplitByte ''support@nullferatu.com'' CHR ''@'' = [''support'', ''nullferatu.com'']"
    by simp
  have host: "url_Parse_Hostname stdlib ''https://fair.nullferatu.com/path'' = Some ''fair.nullferatu.com''"
    by (simp add: stdlib_def go_Hostname_def HasPrefix_def)
  have cand: "ExtractAll_url_candidate ''https://fair.nullferatu.com/path'' (0, 32) =
      ''https://fair.nullferatu.com/path''"
    by (simp add: ExtractAll_url_candidate_def string_simps)
  note dom = isDomainIgnored_suffix_match [of ?n "''x''" "''fair.nullferatu.com''" stdlib "[]"
      Map.empty "''support''" "''fair.nullferatu.com''" "''https://fair.nullferatu.com/path''"
      "(0, 32)" "([], Map.empty, \<lambda>k. False)"]
  note mail = isDomainIgnored_suffix_match [of ?n "''x''" "''support@nullferatu.com''" stdlib "[]"
      Map.empty "''support''" "''nullferatu.com''" "''https://fair.nullferatu.com/path''"
      "(0, 32)" "([], Map.empty, \<lambda>k. False)"]
  note link = isDomainIgnored_suffix_match [of ?n "''x''" "''https://fair.nullferatu.com/path''"
      stdlib "[]" Map.empty "''support''" "''fair.nullferatu.com''"
      "''https://fair.nullferatu.com/path''" "(0, 32)" "([], Map.empty, \<lambda>k. False)"]
  from dom [THEN conjunct2, THEN conjunct2, THEN conjunct2, THEN conjunct1] low ign
  have d: "GetMatches_switch stdlib ?n ''domain'' ''fair.nullferatu.com'' ''fair.nullferatu.com'' [] = None"
    by simp
  from mail [THEN conjunct2, THEN conjunct2, THEN conjunct2, THEN conjunct2, THEN conjunct1]
    low split ign
  have m: "GetMatches_switch stdlib ?n ''email'' ''support@nullferatu.com''
      ''support@nullferatu.com'' [] = None"
    by simp
  from link [THEN conjunct2, THEN conjunct2, THEN conjunct2, THEN conjunct2, THEN conjunct2,
      THEN conjunct1] low host ign
  have u: "GetMatches_switch stdlib ?n ''url'' ''https://fair.nullferatu.com/path''
      ''https://fair.nullferatu.com/path'' [] = None"
    by simp
  from link [THEN conjunct2, THEN conjunct2, THEN conjunct2, THEN conjunct2, THEN conjunct2,
      THEN conjunct2] low host ign cand
  have e: "ExtractAll_url_body stdlib ?n ''https://fair.nullferatu.com/path''
      ([], Map.empty, \<lambda>k. False) (0, 32) = ([], Map.empty, \<lambda>k. False)"
    by simp
  from one d m u e show ?thesis
    by blast
qed

text \<open>
  Claim C1 as stated says false for \<^verbatim>\<open>notexample.com\<close> for every ignore set that
  contains \<^verbatim>\<open>example.com\<close>. The ignore list \<^verbatim>\<open>["example.com", "notexample.com"]\<close>
  contains it, and the check returns true for \<^verbatim>\<open>notexample.com\<close>.
\<close>

theorem isDomainIgnored_every_set_counterexample:
  "''example.com'' \<in> IgnoredDomains (Checks (NewContextualizer False [''example.com'', ''notexample.com''] [])) \<and>
   isDomainIgnored (NewContextualizer False [''example.com'', ''notexample.com''] []) ''notexample.com''"
  by (simp add: isDomainIgnored_def NewContextualizer_def isDomainIgnored_loop.simps string_simps)

section \<open>Overlap suppression\<close>

lemma url_example_candidate:
  "ExtractAll_url_candidate ''http://example.com/page'' (0, 23) = ''http://example.com/page''"
  by (simp add: ExtractAll_url_candidate_def string_simps)

lemma url_ranges_whole_text:
  assumes "Expressions c ''url'' = Some url_re"
    and "\<not> url_ignored X c ''http://example.com/page''"
  shows "url_ranges X c ''http://example.com/page'' = [(0, 23)]"
  using assms
  by (simp add: url_ranges_def url_example_matches url_example_candidate first_by_key_Cons)

lemma url_ranges_ignored:
  assumes "Expressions c ''url'' = Some url_re"
    and "url_ignored X c ''http://example.com/page''"
  shows "url_ranges X c ''http://example.com/page'' = []"
  using assms
  by (simp add: url_ranges_def url_example_matches url_example_candidate)

lemma url_ignored_example:
  assumes "url_Parse_Hostname X ''http://example.com/page'' = Some ''example.com''"
  shows "url_ignored X c ''http://example.com/page'' \<longleftrightarrow> isDomainIgnored c ''example.com''"
proof -
  have "ToLower ''http://example.com/page'' = ''http://example.com/page''"
    by (simp add: string_simps)
  with assms show ?thesis
    by (simp add: url_ignored_def)
qed

lemma ExtractAll_example_surviving:
  assumes "Expressions c ''url'' = Some url_re"
    and "\<not> url_ignored X c ''http://example.com/page''"
  shows "ExtractAll X c ''http://example.com/page'' order =
     [''url'' \<mapsto> [\<lparr>Value = ''http://example.com/page'', Type = ''url''\<rparr>]]"
proof -
  let ?t = "''http://example.com/page''"
  from assms have ur: "url_ranges X c ?t = [(0, 23)]"
    by (rule url_ranges_whole_text)
  then have cov: "(0, length ?t) \<in> set (url_ranges X c ?t)"
    by simp
  have none: "concat (map (kind_matches X c ?t (url_ranges X c ?t)) order) = []"
    by (simp add: kind_matches_covered [OF cov])
  have "url_matches X c ?t = [\<lparr>Value = ?t, Type = ''url''\<rparr>]"
    by (simp add: url_matches_def ur url_example_candidate)
  then show ?thesis
    unfolding ExtractAll_eq none by (simp add: add_all_Cons append_result_def)
qed

lemma domain_example_matches: "FindAllStringIndex domain_re ''http://example.com/page'' = [(7, 18)]"
  by code_simp

lemma filepath_example_matches: "FindAllStringIndex filepath_re ''http://example.com/page'' = [(7, 23)]"
  by code_simp

lemma ExtractAll_example_domain:
  assumes "url_Parse_Hostname X ''http://example.com/page'' = Some ''example.com''"
    and "iteration_order (NewContextualizer a b d) order"
  shows "ExtractAll X (NewContextualizer a b d) ''http://example.com/page'' order ''domain'' = None"
proof (cases "isDomainIgnored (NewContextualizer a b d) ''example.com''")
  case True
  let ?c = "NewContextualizer a b d"
  let ?t = "''http://example.com/page''"
  from assms(2) have ord: "distinct order" "''domain'' \<in> set order"
    by (simp_all add: iteration_order_def NewContextualizer_dom)
  have re: "Expressions ?c ''domain'' = Some domain_re" "Expressions ?c ''url'' = Some url_re"
    by (simp_all add: NewContextualizer_def)
  have low: "ToLower ''example.com'' = ''example.com''"
    by (simp add: string_simps)
  from True have ur: "url_ranges X ?c ?t = []"
    by (simp add: url_ranges_ignored re url_ignored_example [OF assms(1)])
  from True have "kind_retained X ?c ?t [] ''domain'' domain_re = []"
    by (simp add: kind_retained_def domain_example_matches isInsideUrl_def ExtractAll_candidate_def
        substring_def ExtractAll_kept_domain low)
  then show ?thesis
    by (simp add: ExtractAll_at_kind ord re ur)
next
  case False
  have "Expressions (NewContextualizer a b d) ''url'' = Some url_re"
    by (simp add: NewContextualizer_def)
  from ExtractAll_example_surviving [OF this, of X order] False show ?thesis
    by (simp add: url_ignored_example [OF assms(1)])
qed

lemma ExtractAll_example_ignored:
  assumes "url_Parse_Hostname X ''http://example.com/page'' = Some ''example.com''"
    and "iteration_order (NewContextualizer a b d) order"
    and "isDomainIgnored (NewContextualizer a b d) ''example.com''"
  shows "ExtractAll X (NewContextualizer a b d) ''http://example.com/page'' order ''url'' = None"
    and "ExtractAll X (NewContextualizer a b d) ''http://example.com/page'' order ''filepath'' =
      Some [\<lparr>Value = ''example.com/page'', Type = ''filepath''\<rparr>]"
proof -
  let ?c = "NewContextualizer a b d"
  let ?t = "''http://example.com/page''"
  from assms(2) have ord: "distinct order" "''filepath'' \<in> set order"
    by (simp_all add: iteration_order_def NewContextualizer_dom)
  have re: "Expressions ?c ''filepath'' = Some filepath_re" "Expressions ?c ''url'' = Some url_re"
    by (simp_all add: NewContextualizer_def)
  have low: "ToLower ''example.com/page'' = ''example.com/page''"
    by (simp add: string_simps)
  from assms(3) have ur: "url_ranges X ?c ?t = []"
    by (simp add: url_ranges_ignored re url_ignored_example [OF assms(1)])
  then show "ExtractAll X ?c ?t order ''url'' = None"
    by (simp add: ExtractAll_at_url url_matches_def)
  have "kind_retained X ?c ?t [] ''filepath'' filepath_re = [''example.com/page'']"
    by (simp add: kind_retained_def filepath_example_matches isInsideUrl_def ExtractAll_candidate_def
        substring_def ExtractAll_kept_filepath low HasPrefix_def first_by_key_Cons)
  then show "ExtractAll X ?c ?t order ''filepath'' =
      Some [\<lparr>Value = ''example.com/page'', Type = ''filepath''\<rparr>]"
    by (simp add: ExtractAll_at_kind ord re ur some_list_def)
qed

lemma ExtractAll_bases_other:
  assumes "kind \<noteq> ''domain''"
  shows "ExtractAll_bases X c kind v = []"
proof (rule ccontr)
  assume "ExtractAll_bases X c kind v \<noteq> []"
  then obtain m where "m \<in> set (ExtractAll_bases X c kind v)"
    by (cases "ExtractAll_bases X c kind v") auto
  from ExtractAll_bases_Type [OF this] assms show False by simp
qed

text \<open>
  Claim C2. \<^verbatim>\<open>ExtractAll\<close> runs the URL pass first: a URL match that is not ignored and
  whose case-folded value was not seen records its index pair and its result, every
  other URL match records nothing; so the loops of the other kinds start from the URL
  results and use the ranges \<open>url_ranges\<close> of the URL matches that survive, one range
  for each URL result. In the loop of every other kind a candidate is dropped by the
  overlap test exactly when its range lies inside one of these ranges, before the filters
  of its kind and the de-duplication see it: a candidate inside a range leaves the state
  as it is, a candidate outside every range is handed to the de-duplication and the
  filter of its kind and, when it passes, is appended; the loop is the loop without the
  overlap test over the candidates that are not inside a range.

  For the text \<^verbatim>\<open>http://example.com/page\<close>: when the URL is not ignored, the result
  holds the URL and nothing else, no \<^verbatim>\<open>domain\<close> match and no \<^verbatim>\<open>filepath\<close> match. For
  an extractor of \<^verbatim>\<open>NewContextualizer\<close> and a library that reads the host
  \<^verbatim>\<open>example.com\<close> from the URL, no \<^verbatim>\<open>domain\<close> match is produced whatever the ignore
  rules are; when the host is ignored, the URL is skipped before its range is recorded,
  no range is claimed, and the \<^verbatim>\<open>filepath\<close> match \<^verbatim>\<open>example.com/page\<close> is produced.
\<close>

theorem ExtractAll_overlap_suppression:
  "ExtractAll X c text order =
     foldl (ExtractAll_kind X c text (url_ranges X c text))
       (add_all Map.empty (url_matches X c text)) order \<and>
   foldl (ExtractAll_body X c text urlRanges kind) st idxs =
     foldl (ExtractAll_body X c text [] kind) st
       (filter (\<lambda>idx. \<not> isInsideUrl urlRanges idx) idxs) \<and>
   (isInsideUrl urlRanges idx \<longleftrightarrow>
      (\<exists>r \<in> set urlRanges. fst r \<le> fst idx \<and> snd idx \<le> snd r)) \<and>
   (\<not> url_ignored X c (ExtractAll_url_candidate text idx) \<and>
    \<not> seen (ToLower (ExtractAll_url_candidate text idx)) \<longrightarrow>
      ExtractAll_url_body X c text (urlRanges, results, seen) idx =
        (urlRanges @ [idx],
         append_result results ''url'' \<lparr>Value = ExtractAll_url_candidate text idx, Type = ''url''\<rparr>,
         seen(ToLower (ExtractAll_url_candidate text idx) := True))) \<and>
   (url_ignored X c (ExtractAll_url_candidate text idx) \<or>
    seen (ToLower (ExtractAll_url_candidate text idx)) \<longrightarrow>
      ExtractAll_url_body X c text (urlRanges, results, seen) idx = (urlRanges, results, seen)) \<and>
   (isInsideUrl urlRanges idx \<longrightarrow>
      ExtractAll_body X c text urlRanges kind (seen, results) idx = (seen, results)) \<and>
   (\<not> isInsideUrl urlRanges idx \<and>
    (seen (ToLower (ExtractAll_candidate text idx)) \<or>
     \<not> ExtractAll_kept X c kind (ExtractAll_candidate text idx)) \<longrightarrow>
      ExtractAll_body X c text urlRanges kind (seen, results) idx = (seen, results)) \<and>
   (\<not> isInsideUrl urlRanges idx \<and> \<not> seen (ToLower (ExtractAll_candidate text idx)) \<and>
    ExtractAll_kept X c kind (ExtractAll_candidate text idx) \<and> kind \<noteq> ''domain'' \<longrightarrow>
      ExtractAll_body X c text urlRanges kind (seen, results) idx =
        (seen(ToLower (ExtractAll_candidate text idx) := True),
         append_result results kind \<lparr>Value = ExtractAll_candidate text idx, Type = kind\<rparr>)) \<and>
   (\<not> isInsideUrl urlRanges idx \<and> \<not> seen (ToLower (ExtractAll_candidate text idx)) \<and>
    ExtractAll_kept X c ''domain'' (ExtractAll_candidate text idx) \<longrightarrow>
      ExtractAll_body X c text urlRanges ''domain'' (seen, results) idx =
        (seen(ToLower (ExtractAll_candidate text idx) := True),
         append_result
           (add_all results (ExtractAll_bases X c ''domain'' (ExtractAll_candidate text idx)))
           ''domain'' \<lparr>Value = ExtractAll_candidate text idx, Type = ''domain''\<rparr>)) \<and>
   (Expressions c ''url'' = Some url_re \<and> \<not> url_ignored X c ''http://example.com/page'' \<longrightarrow>
      ExtractAll X c ''http://example.com/page'' order =
        [''url'' \<mapsto> [\<lparr>Value = ''http://example.com/page'', Type = ''url''\<rparr>]]) \<and>
   (url_Parse_Hostname X ''http://example.com/page'' = Some ''example.com'' \<and>
    iteration_order (NewContextualizer a b d) order' \<longrightarrow>
      ExtractAll X (NewContextualizer a b d) ''http://example.com/page'' order' ''domain'' = None) \<and>
   (url_Parse_Hostname X ''http://example.com/page'' = Some ''example.com'' \<and>
    iteration_order (NewContextualizer a b d) order' \<and>
    \<not> isDomainIgnored (NewContextualizer a b d) ''example.com'' \<longrightarrow>
      ExtractAll X (NewContextualizer a b d) ''http://example.com/page'' order' =
        [''url'' \<mapsto> [\<lparr>Value = ''http://example.com/page'', Type = ''url''\<rparr>]]) \<and>
   (url_Parse_Hostname X ''http://example.com/page'' = Some ''example.com'' \<and>
    iteration_order (NewContextualizer a b d) order' \<and>
    isDomainIgnored (NewContextualizer a b d) ''example.com'' \<longrightarrow>
      ExtractAll X (NewContextualizer a b d) ''http://example.com/page'' order' ''url'' = None \<and>
      ExtractAll X (NewContextualizer a b d) ''http://example.com/page'' order' ''filepath'' =
        Some [\<lparr>Value = ''example.com/page'', Type = ''filepath''\<rparr>])"
proof (intro conjI impI)
  show "ExtractAll X c text order =
     foldl (ExtractAll_kind X c text (url_ranges X c text))
       (add_all Map.empty (url_matches X c text)) order"
    by (simp add: ExtractAll_def ExtractAll_urls_eq)
next
  show "foldl (ExtractAll_body X c text urlRanges kind) st idxs =
     foldl (ExtractAll_body X c text [] kind) st
       (filter (\<lambda>idx. \<not> isInsideUrl urlRanges idx) idxs)"
    by (rule ExtractAll_body_overlap)
next
  show "isInsideUrl urlRanges idx \<longleftrightarrow>
      (\<exists>r \<in> set urlRanges. fst r \<le> fst idx \<and> snd idx \<le> snd r)"
    by (simp add: isInsideUrl_def list_ex_iff)
next
  assume "\<not> url_ignored X c (ExtractAll_url_candidate text idx) \<and>
    \<not> seen (ToLower (ExtractAll_url_candidate text idx))"
  then show "ExtractAll_url_body X c text (urlRanges, results, seen) idx =
        (urlRanges @ [idx],
         append_result results ''url'' \<lparr>Value = ExtractAll_url_candidate text idx, Type = ''url''\<rparr>,
         seen(ToLower (ExtractAll_url_candidate text idx) := True))"
    by (simp add: ExtractAll_url_body_eq Let_def add_all_Cons)
next
  assume "url_ignored X c (ExtractAll_url_candidate text idx) \<or>
    seen (ToLower (ExtractAll_url_candidate text idx))"
  then show "ExtractAll_url_body X c text (urlRanges, results, seen) idx = (urlRanges, results, seen)"
    by (simp add: ExtractAll_url_body_eq Let_def)
next
  assume "isInsideUrl urlRanges idx"
  then show "ExtractAll_body X c text urlRanges kind (seen, results) idx = (seen, results)"
    by (simp add: ExtractAll_body_eq Let_def)
next
  assume "\<not> isInsideUrl urlRanges idx \<and>
    (seen (ToLower (ExtractAll_candidate text idx)) \<or>
     \<not> ExtractAll_kept X c kind (ExtractAll_candidate text idx))"
  then show "ExtractAll_body X c text urlRanges kind (seen, results) idx = (seen, results)"
    by (simp add: ExtractAll_body_eq Let_def)
next
  assume "\<not> isInsideUrl urlRanges idx \<and> \<not> seen (ToLower (ExtractAll_candidate text idx)) \<and>
    ExtractAll_kept X c kind (ExtractAll_candidate text idx) \<and> kind \<noteq> ''domain''"
  then show "ExtractAll_body X c text urlRanges kind (seen, results) idx =
        (seen(ToLower (ExtractAll_candidate text idx) := True),
         append_result results kind \<lparr>Value = ExtractAll_candidate text idx, Type = kind\<rparr>)"
    by (simp add: ExtractAll_body_eq Let_def ExtractAll_bases_other add_all_Cons)
next
  assume "\<not> isInsideUrl urlRanges idx \<and> \<not> seen (ToLower (ExtractAll_candidate text idx)) \<and>
    ExtractAll_kept X c ''domain'' (ExtractAll_candidate text idx)"
  then show "ExtractAll_body X c text urlRanges ''domain'' (seen, results) idx =
        (seen(ToLower (ExtractAll_candidate text idx) := True),
         append_result
           (add_all results (ExtractAll_bases X c ''domain'' (ExtractAll_candidate text idx)))
           ''domain'' \<lparr>Value = ExtractAll_candidate text idx, Type = ''domain''\<rparr>)"
    by (simp add: ExtractAll_body_eq Let_def add_all_append add_all_Cons)
next
  assume "Expressions c ''url'' = Some url_re \<and> \<not> url_ignored X c ''http://example.com/page''"
  then show "ExtractAll X c ''http://example.com/page'' order =
      [''url'' \<mapsto> [\<lparr>Value = ''http://example.com/page'', Type = ''url''\<rparr>]]"
    by (simp add: ExtractAll_example_surviving)
next
  assume "url_Parse_Hostname X ''http://example.com/page'' = Some ''example.com'' \<and>
    iteration_order (NewContextualizer a b d) order'"
  then show "ExtractAll X (NewContextualizer a b d) ''http://example.com/page'' order' ''domain'' = None"
    by (simp add: ExtractAll_example_domain)
next
  assume h: "url_Parse_Hostname X ''http://example.com/page'' = Some ''example.com'' \<and>
    iteration_order (NewContextualizer a b d) order' \<and>
    \<not> isDomainIgnored (NewContextualizer a b d) ''example.com''"
  have "Expressions (NewContextualizer a b d) ''url'' = Some url_re"
    by (simp add: NewContextualizer_def)
  from ExtractAll_example_surviving [OF this, of X order'] h
  show "ExtractAll X (NewContextualizer a b d) ''http://example.com/page'' order' =
      [''url'' \<mapsto> [\<lparr>Value = ''http://example.com/page'', Type = ''url''\<rparr>]]"
    by (simp add: url_ignored_example)
next
  assume h: "url_Parse_Hostname X ''http://example.com/page'' = Some ''example.com'' \<and>
    iteration_order (NewContextualizer a b d) order' \<and>
    isDomainIgnored (NewContextualizer a b d) ''example.com''"
  then show "ExtractAll X (NewContextualizer a b d) ''http://example.com/page'' order' ''url'' = None"
    by (simp add: ExtractAll_example_ignored(1))
  from h show "ExtractAll X (NewContextualizer a b d) ''http://example.com/page'' order' ''filepath'' =
      Some [\<lparr>Value = ''example.com/page'', Type = ''filepath''\<rparr>]"
    by (simp add: ExtractAll_example_ignored(2))
qed

lemma stdlib_example_host:
  "url_Parse_Hostname stdlib ''http://example.com/page'' = Some ''example.com''"
  by code_simp

lemma example_ignored:
  "isDomainIgnored (NewContextualizer False [''example.com''] []) ''example.com''"
  by (simp add: isDomainIgnored_def NewContextualizer_def isDomainIgnored_loop.simps string_simps)

text \<open>
  The theorem with the library instance. At the extractor of the repository's test,
  which ignores \<^verbatim>\<open>ignored.com\<close>, the URL survives and records its range: the domain
  candidate at \<open>(7, 18)\<close> is inside it, and the result holds the URL only. Without a
  claimed range the file path candidate at \<open>(7, 23)\<close> and the domain candidate are
  appended, and a candidate that was seen is skipped. At an extractor that ignores
  \<^verbatim>\<open>example.com\<close> the URL is skipped, no range is recorded, and the file path is in
  the result.
\<close>

theorem ExtractAll_overlap_suppression_witness:
  "ExtractAll stdlib (NewContextualizer False [''ignored.com''] []) ''http://example.com/page''
     [''domain'', ''filepath'', ''url''] ''domain'' = None \<and>
   ExtractAll stdlib (NewContextualizer False [''ignored.com''] []) ''http://example.com/page''
     [''domain'', ''filepath'', ''url''] ''filepath'' = None \<and>
   ExtractAll stdlib (NewContextualizer False [''ignored.com''] []) ''http://example.com/page''
     [''domain'', ''filepath'', ''url''] ''url'' =
       Some [\<lparr>Value = ''http://example.com/page'', Type = ''url''\<rparr>] \<and>
   ExtractAll stdlib (NewContextualizer False [''ignored.com''] []) ''http://example.com/page''
     table_order = [''url'' \<mapsto> [\<lparr>Value = ''http://example.com/page'', Type = ''url''\<rparr>]] \<and>
   isInsideUrl [(0, 23)] (7, 18) \<and>
   foldl (ExtractAll_body stdlib (NewContextualizer False [''ignored.com''] []) ''http://example.com/page''
            [(0, 23)] ''domain'') (\<lambda>k. False, Map.empty) [(7, 18)] = (\<lambda>k. False, Map.empty) \<and>
   ExtractAll_body stdlib (NewContextualizer False [''ignored.com''] []) ''http://example.com/page''
       [(0, 23)] ''domain'' (\<lambda>k. False, Map.empty) (7, 18) = (\<lambda>k. False, Map.empty) \<and>
   ExtractAll_body stdlib (NewContextualizer False [''ignored.com''] []) ''http://example.com/page''
       [] ''filepath'' (\<lambda>k. False, Map.empty) (7, 23) =
     ((\<lambda>k. False)(''example.com/page'' := True),
      [''filepath'' \<mapsto> [\<lparr>Value = ''example.com/page'', Type = ''filepath''\<rparr>]]) \<and>
   ExtractAll_body stdlib (NewContextualizer False [''ignored.com''] []) ''http://example.com/page''
       [] ''filepath'' ((\<lambda>k. False)(''example.com/page'' := True), Map.empty) (7, 23) =
     ((\<lambda>k. False)(''example.com/page'' := True), Map.empty) \<and>
   ExtractAll_body stdlib (NewContextualizer False [''ignored.com''] []) ''http://example.com/page''
       [] ''domain'' (\<lambda>k. False, Map.empty) (7, 18) =
     ((\<lambda>k. False)(''example.com'' := True),
      [''domain'' \<mapsto> [\<lparr>Value = ''example.com'', Type = ''domain''\<rparr>]]) \<and>
   ExtractAll_url_body stdlib (NewContextualizer False [''ignored.com''] []) ''http://example.com/page''
       ([], Map.empty, \<lambda>k. False) (0, 23) =
     ([(0, 23)], [''url'' \<mapsto> [\<lparr>Value = ''http://example.com/page'', Type = ''url''\<rparr>]],
      (\<lambda>k. False)(''http://example.com/page'' := True)) \<and>
   ExtractAll_url_body stdlib (NewContextualizer False [''example.com''] []) ''http://example.com/page''
       ([], Map.empty, \<lambda>k. False) (0, 23) = ([], Map.empty, \<lambda>k. False) \<and>
   ExtractAll stdlib (NewContextualizer False [''example.com''] []) ''http://example.com/page''
     table_order ''domain'' = None \<and>
   ExtractAll stdlib (NewContextualizer False [''example.com''] []) ''http://example.com/page''
     table_order ''url'' = None \<and>
   ExtractAll stdlib (NewContextualizer False [''example.com''] []) ''http://example.com/page''
     table_order ''filepath'' = Some [\<lparr>Value = ''example.com/page'', Type = ''filepath''\<rparr>]"
proof -
  let ?c = "NewContextualizer False [''ignored.com''] []"
  let ?ci = "NewContextualizer False [''example.com''] []"
  let ?t = "''http://example.com/page''"
  let ?seen = "(\<lambda>k. False)(''example.com/page'' := True)"
  have re: "Expressions ?c ''url'' = Some url_re"
    by (simp add: NewContextualizer_def)
  have ok: "\<not> url_ignored stdlib ?c ?t"
    by code_simp
  have no: "\<not> isDomainIgnored ?c ''example.com''"
    using ok by (simp add: url_ignored_example [OF stdlib_example_host])
  have ign: "url_ignored stdlib ?ci ?t"
    by (simp add: url_ignored_example [OF stdlib_example_host] example_ignored)
  have ins: "isInsideUrl [(0, 23)] (7, 18)"
    by (simp add: isInsideUrl_def)
  have out: "\<not> isInsideUrl [] (7, 23)" "\<not> isInsideUrl [] (7, 18)"
    by (simp_all add: isInsideUrl_def)
  have cand: "ExtractAll_candidate ?t (7, 23) = ''example.com/page''"
      "ExtractAll_candidate ?t (7, 18) = ''example.com''"
    by (simp_all add: ExtractAll_candidate_def substring_def)
  have low: "ToLower ''example.com/page'' = ''example.com/page''"
      "ToLower ?t = ?t" "ToLower ''example.com'' = ''example.com''"
    by (simp_all add: string_simps)
  have kept: "ExtractAll_kept stdlib ?c ''filepath'' ''example.com/page''"
      "ExtractAll_kept stdlib ?c ''domain'' ''example.com''"
    using no by (simp_all add: ExtractAll_kept_filepath ExtractAll_kept_domain low HasPrefix_def)
  have etld: "extractSecondLevelDomain stdlib ''example.com'' = Some ''example.com''"
    by (simp add: extractSecondLevelDomain_def stdlib_def go_EffectiveTLDPlusOne_def)
  have bases: "ExtractAll_bases stdlib ?c ''domain'' ''example.com'' = []"
    using no by (simp add: ExtractAll_bases_domain low etld)
  note inside = ExtractAll_overlap_suppression [of stdlib ?c ?t "[''domain'', ''filepath'', ''url'']"
      "[(0, 23)]" "''domain''" "(\<lambda>k. False, Map.empty)" "[(7, 18)]" "(7, 18)" "\<lambda>k. False" Map.empty
      False "[''example.com'']" "[]" table_order]
  note outside = ExtractAll_overlap_suppression [of stdlib ?c ?t "[''domain'', ''filepath'', ''url'']"
      "[]" "''filepath''" "(\<lambda>k. False, Map.empty)" "[(7, 23)]" "(7, 23)" "\<lambda>k. False" Map.empty
      False "[''ignored.com'']" "[]" table_order]
  note dup = ExtractAll_overlap_suppression [of stdlib ?c ?t "[''domain'', ''filepath'', ''url'']"
      "[]" "''filepath''" "(\<lambda>k. False, Map.empty)" "[(7, 23)]" "(7, 23)" ?seen Map.empty
      False "[''ignored.com'']" "[]" table_order]
  note domain = ExtractAll_overlap_suppression [of stdlib ?c ?t "[''domain'', ''filepath'', ''url'']"
      "[]" "''filepath''" "(\<lambda>k. False, Map.empty)" "[(7, 18)]" "(7, 18)" "\<lambda>k. False" Map.empty
      False "[''ignored.com'']" "[]" table_order]
  note urlpass = ExtractAll_overlap_suppression [of stdlib ?c ?t "[''domain'', ''filepath'', ''url'']"
      "[]" "''filepath''" "(\<lambda>k. False, Map.empty)" "[(0, 23)]" "(0, 23)" "\<lambda>k. False" Map.empty
      False "[''example.com'']" "[]" table_order]
  note urlskip = ExtractAll_overlap_suppression [of stdlib ?ci ?t "[''domain'', ''filepath'', ''url'']"
      "[]" "''filepath''" "(\<lambda>k. False, Map.empty)" "[(0, 23)]" "(0, 23)" "\<lambda>k. False" Map.empty
      False "[''example.com'']" "[]" table_order]
  note r3 = inside [THEN conjunct2, THEN conjunct2, THEN conjunct2]
  note r6 = r3 [THEN conjunct2, THEN conjunct2, THEN conjunct2]
  note r9 = r6 [THEN conjunct2, THEN conjunct2, THEN conjunct2]
  note o6 = outside [THEN conjunct2, THEN conjunct2, THEN conjunct2, THEN conjunct2, THEN conjunct2,
      THEN conjunct2]
  from r9 [THEN conjunct1] re ok
  have all: "ExtractAll stdlib ?c ?t [''domain'', ''filepath'', ''url''] =
      [''url'' \<mapsto> [\<lparr>Value = ?t, Type = ''url''\<rparr>]]"
    by simp
  from o6 [THEN conjunct2, THEN conjunct2, THEN conjunct2, THEN conjunct2, THEN conjunct2, THEN conjunct1]
    stdlib_example_host table_order_iteration [of False "[''ignored.com'']" "[]"] no
  have all': "ExtractAll stdlib ?c ?t table_order = [''url'' \<mapsto> [\<lparr>Value = ?t, Type = ''url''\<rparr>]]"
    by simp
  from inside [THEN conjunct2, THEN conjunct1] ins
  have loop: "foldl (ExtractAll_body stdlib ?c ?t [(0, 23)] ''domain'') (\<lambda>k. False, Map.empty) [(7, 18)] =
      (\<lambda>k. False, Map.empty)"
    by simp
  from r3 [THEN conjunct2, THEN conjunct2, THEN conjunct1] ins
  have body: "ExtractAll_body stdlib ?c ?t [(0, 23)] ''domain'' (\<lambda>k. False, Map.empty) (7, 18) =
      (\<lambda>k. False, Map.empty)"
    by simp
  from o6 [THEN conjunct2, THEN conjunct1] out kept
  have app: "ExtractAll_body stdlib ?c ?t [] ''filepath'' (\<lambda>k. False, Map.empty) (7, 23) =
      (?seen, [''filepath'' \<mapsto> [\<lparr>Value = ''example.com/page'', Type = ''filepath''\<rparr>]])"
    by (simp add: cand low append_result_def)
  from dup [THEN conjunct2, THEN conjunct2, THEN conjunct2, THEN conjunct2, THEN conjunct2,
      THEN conjunct2, THEN conjunct1] out
  have skip: "ExtractAll_body stdlib ?c ?t [] ''filepath'' (?seen, Map.empty) (7, 23) = (?seen, Map.empty)"
    by (simp add: cand low)
  from domain [THEN conjunct2, THEN conjunct2, THEN conjunct2, THEN conjunct2, THEN conjunct2,
      THEN conjunct2, THEN conjunct2, THEN conjunct2, THEN conjunct1] out kept
  have dapp: "ExtractAll_body stdlib ?c ?t [] ''domain'' (\<lambda>k. False, Map.empty) (7, 18) =
      ((\<lambda>k. False)(''example.com'' := True),
       [''domain'' \<mapsto> [\<lparr>Value = ''example.com'', Type = ''domain''\<rparr>]])"
    by (simp add: cand low bases append_result_def)
  from urlpass [THEN conjunct2, THEN conjunct2, THEN conjunct2, THEN conjunct1] ok
  have url: "ExtractAll_url_body stdlib ?c ?t ([], Map.empty, \<lambda>k. False) (0, 23) =
      ([(0, 23)], [''url'' \<mapsto> [\<lparr>Value = ?t, Type = ''url''\<rparr>]], (\<lambda>k. False)(?t := True))"
    by (simp add: url_example_candidate low append_result_def)
  from urlskip [THEN conjunct2, THEN conjunct2, THEN conjunct2, THEN conjunct2, THEN conjunct1] ign
  have uskip: "ExtractAll_url_body stdlib ?ci ?t ([], Map.empty, \<lambda>k. False) (0, 23) =
      ([], Map.empty, \<lambda>k. False)"
    by (simp add: url_example_candidate)
  note it = table_order_iteration [of False "[''example.com'']" "[]"]
  from r9 [THEN conjunct2, THEN conjunct1] stdlib_example_host it
  have dom: "ExtractAll stdlib ?ci ?t table_order ''domain'' = None"
    by simp
  from r9 [THEN conjunct2, THEN conjunct2, THEN conjunct2] stdlib_example_host it example_ignored
  have ignored: "ExtractAll stdlib ?ci ?t table_order ''url'' = None \<and>
      ExtractAll stdlib ?ci ?t table_order ''filepath'' =
        Some [\<lparr>Value = ''example.com/page'', Type = ''filepath''\<rparr>]"
    by simp
  have "ExtractAll stdlib ?c ?t [''domain'', ''filepath'', ''url''] ''domain'' = None"
      "ExtractAll stdlib ?c ?t [''domain'', ''filepath'', ''url''] ''filepath'' = None"
      "ExtractAll stdlib ?c ?t [''domain'', ''filepath'', ''url''] ''url'' =
        Some [\<lparr>Value = ?t, Type = ''url''\<rparr>]"
    by (simp_all add: all)
  with all' loop body app skip dapp url uskip dom ignored ins show ?thesis
    by blast
qed

text \<open>
  Claim C2 as stated says that the text \<^verbatim>\<open>http://example.com/page\<close> produces no
  \<^verbatim>\<open>filepath\<close> match \<^verbatim>\<open>example.com/page\<close>. With the ignore list
  \<^verbatim>\<open>["example.com"]\<close> the URL is ignored and claims no range, and the file path is in
  the result.
\<close>

theorem ExtractAll_ignored_url_counterexample:
  "isDomainIgnored (NewContextualizer False [''example.com''] []) ''example.com'' \<and>
   ExtractAll stdlib (NewContextualizer False [''example.com''] []) ''http://example.com/page''
     table_order ''url'' = None \<and>
   ExtractAll stdlib (NewContextualizer False [''example.com''] []) ''http://example.com/page''
     table_order ''filepath'' = Some [\<lparr>Value = ''example.com/page'', Type = ''filepath''\<rparr>]"
  using ExtractAll_example_ignored [OF stdlib_example_host table_order_iteration example_ignored]
    example_ignored
  by simp

section \<open>The prefix filter of file paths\<close>

lemma filepath_ftp_matches:
  "FindAllStringIndex filepath_re ''ftp.example.com/pub'' = [(0, 19)]"
  by code_simp

lemma url_ftp_matches: "FindAllStringIndex url_re ''ftp.example.com/pub'' = []"
  by code_simp

text \<open>
  Claim C3 says that both paths drop a \<^verbatim>\<open>filepath\<close> candidate that begins with
  \<^verbatim>\<open>http\<close>, \<^verbatim>\<open>www\<close> or \<^verbatim>\<open>ftp\<close>. The filter of \<^verbatim>\<open>ExtractAll\<close> tests \<^verbatim>\<open>http\<close>
  and \<^verbatim>\<open>www\<close> only. The two paths at the text \<^verbatim>\<open>ftp.example.com/pub\<close>, for every
  extractor built by \<^verbatim>\<open>NewContextualizer\<close>: \<^verbatim>\<open>GetMatches\<close> returns no match, and
  \<^verbatim>\<open>ExtractAll\<close> returns the candidate as a \<^verbatim>\<open>filepath\<close> match.
\<close>

theorem filepath_ftp_prefix_divergence:
  "GetMatches X (NewContextualizer a b d) ''ftp.example.com/pub'' ''filepath'' filepath_re = [] \<and>
   (iteration_order (NewContextualizer a b d) order \<longrightarrow>
      ExtractAll X (NewContextualizer a b d) ''ftp.example.com/pub'' order ''filepath'' =
        Some [\<lparr>Value = ''ftp.example.com/pub'', Type = ''filepath''\<rparr>])"
proof (intro conjI impI)
  let ?c = "NewContextualizer a b d"
  let ?t = "''ftp.example.com/pub''"
  have fas: "FindAllString filepath_re ?t = [?t]"
    by (simp add: FindAllString_def filepath_ftp_matches substring_def)
  have "\<not> GetMatches_kept X ?c ''filepath'' ?t"
    by (simp add: GetMatches_kept_filepath string_simps)
  then show "GetMatches X ?c ?t ''filepath'' filepath_re = []"
    by (simp add: GetMatches_eq_primaries fas GetMatches_candidate_def)
next
  let ?c = "NewContextualizer a b d"
  let ?t = "''ftp.example.com/pub''"
  assume "iteration_order ?c order"
  then have ord: "distinct order" "''filepath'' \<in> set order"
    by (simp_all add: iteration_order_def NewContextualizer_dom)
  have re: "Expressions ?c ''filepath'' = Some filepath_re" "Expressions ?c ''url'' = Some url_re"
    by (simp_all add: NewContextualizer_def)
  have ur: "url_ranges X ?c ?t = []"
    by (simp add: url_ranges_def re url_ftp_matches)
  have kept: "ExtractAll_kept X ?c ''filepath'' ?t"
    by (simp add: ExtractAll_kept_filepath string_simps)
  have "kind_retained X ?c ?t [] ''filepath'' filepath_re = [?t]"
    using kept
    by (simp add: kind_retained_def filepath_ftp_matches isInsideUrl_def ExtractAll_candidate_def
        substring_def first_by_key_Cons)
  with ord re(1) ur show "ExtractAll X ?c ?t order ''filepath'' =
      Some [\<lparr>Value = ?t, Type = ''filepath''\<rparr>]"
    by (simp add: ExtractAll_at_kind some_list_def)
qed

text \<open>The two paths at the extractor without ignore rules, in the order of the table.\<close>

theorem filepath_ftp_prefix_divergence_witness:
  "GetMatches stdlib (NewContextualizer False [] []) ''ftp.example.com/pub'' ''filepath'' filepath_re = [] \<and>
   ExtractAll stdlib (NewContextualizer False [] []) ''ftp.example.com/pub'' table_order
     ''filepath'' =
     Some [\<lparr>Value = ''ftp.example.com/pub'', Type = ''filepath''\<rparr>]"
proof -
  from filepath_ftp_prefix_divergence [of stdlib False "[]" "[]" table_order]
    table_order_iteration [of False "[]" "[]"]
  show ?thesis
    by blast
qed

section \<open>The casing of the values\<close>

lemma GetMatches_primary_source:
  assumes "m \<in> set (GetMatches X c text kind regex)" "Type m = kind"
  shows "\<exists>raw \<in> set (FindAllString regex text).
           Value m = GetMatches_value kind (GetMatches_candidate kind raw)"
proof -
  from assms have "m \<in> set (filter (\<lambda>m. Type m = kind) (GetMatches X c text kind regex))"
    by simp
  then obtain v where v: "m = \<lparr>Value = GetMatches_value kind v, Type = kind\<rparr>"
      "v \<in> set (first_by_key {} ToLower
          (filter (GetMatches_kept X c kind)
             (map (GetMatches_candidate kind) (FindAllString regex text))))"
    unfolding GetMatches_primaries by auto
  from v(2)
  have "v \<in> set (filter (GetMatches_kept X c kind)
             (map (GetMatches_candidate kind) (FindAllString regex text)))"
    by (rule subsetD [OF first_by_key_subset])
  with v(1) show ?thesis by auto
qed

lemma kind_retained_source:
  assumes "v \<in> set (kind_retained X c text ur kind regex)"
  shows "\<exists>idx \<in> set (FindAllStringIndex regex text). v = substring text (fst idx) (snd idx)"
proof -
  from assms
  have "v \<in> set (filter (ExtractAll_kept X c kind)
          (map (ExtractAll_candidate text)
             (filter (\<lambda>idx. \<not> isInsideUrl ur idx) (FindAllStringIndex regex text))))"
    unfolding kind_retained_def by (rule subsetD [OF first_by_key_subset])
  then show ?thesis
    by (auto simp: ExtractAll_candidate_def)
qed

lemma ExtractAll_kind_source:
  assumes "ExtractAll X c text order k = Some ms" "k \<noteq> ''url''" "k \<noteq> ''base_domain''"
    and "m \<in> set ms"
  shows "Type m = k \<and>
     (\<exists>regex. Expressions c k = Some regex \<and>
        (\<exists>idx \<in> set (FindAllStringIndex regex text). Value m = substring text (fst idx) (snd idx)))"
proof -
  let ?ur = "url_ranges X c text"
  from assms(1,2) have ms: "ms = filter (\<lambda>m. Type m = k)
      (concat (map (kind_matches X c text ?ur) order))"
    by (simp add: ExtractAll_at filter_url_matches some_list_def split: if_splits)
  with assms(4) obtain kind where kind: "m \<in> set (kind_matches X c text ?ur kind)" "Type m = k"
    by auto
  from kind_matches_Type [OF kind(1)] kind(2) assms(3) have "kind = k" by auto
  with kind have "m \<in> set (filter (\<lambda>m. Type m = k) (kind_matches X c text ?ur k))"
    by simp
  then have own: "m \<in> set (case Expressions c k of
        None \<Rightarrow> []
      | Some regex \<Rightarrow> map (\<lambda>v. \<lparr>Value = v, Type = k\<rparr>) (kind_retained X c text ?ur k regex))"
    unfolding filter_kind_matches_own [OF assms(2,3)] .
  show ?thesis
  proof (cases "Expressions c k")
    case None
    with own show ?thesis by simp
  next
    case (Some regex)
    with own obtain v where v: "m = \<lparr>Value = v, Type = k\<rparr>"
        "v \<in> set (kind_retained X c text ?ur k regex)"
      by auto
    from kind_retained_source [OF v(2)] v(1) Some show ?thesis by auto
  qed
qed

lemma ExtractAll_url_source:
  assumes "ExtractAll X c text order ''url'' = Some ms" "m \<in> set ms"
  shows "Type m = ''url'' \<and>
     (\<exists>regex. Expressions c ''url'' = Some regex \<and>
        (\<exists>idx \<in> set (FindAllStringIndex regex text).
           Value m = TrimSuffix (TrimRight (substring text (fst idx) (snd idx)) ''/.,;:'') ''/''))"
proof -
  from assms have m: "m \<in> set (url_matches X c text)"
    by (simp add: ExtractAll_at_url some_list_def split: if_splits)
  then obtain idx where idx: "idx \<in> set (url_ranges X c text)"
      "m = \<lparr>Value = ExtractAll_url_candidate text idx, Type = ''url''\<rparr>"
    by (auto simp: url_matches_def)
  show ?thesis
  proof (cases "Expressions c ''url''")
    case None
    with idx(1) show ?thesis by (simp add: url_ranges_def)
  next
    case (Some regex)
    with idx(1)
    have "idx \<in> set (first_by_key {} (\<lambda>idx. ToLower (ExtractAll_url_candidate text idx))
            (filter (\<lambda>idx. \<not> url_ignored X c (ExtractAll_url_candidate text idx))
               (FindAllStringIndex regex text)))"
      by (simp add: url_ranges_def)
    then have "idx \<in> set (filter (\<lambda>idx. \<not> url_ignored X c (ExtractAll_url_candidate text idx))
               (FindAllStringIndex regex text))"
      by (rule subsetD [OF first_by_key_subset])
    with Some idx(2) show ?thesis
      by (auto simp: ExtractAll_url_candidate_def)
  qed
qed

lemma GetMatches_loop_source:
  assumes "m \<in> set (snd (foldl (GetMatches_body X c kind) (seen, rs) ms))"
  shows "m \<in> set rs \<or>
     (\<exists>raw \<in> set ms. m \<in> set (GetMatches_bases X c kind (GetMatches_candidate kind raw)) \<or>
        m = \<lparr>Value = GetMatches_value kind (GetMatches_candidate kind raw), Type = kind\<rparr>)"
  using assms
proof (induction ms arbitrary: seen rs)
  case Nil
  then show ?case by simp
next
  case (Cons match0 ms)
  let ?st = "GetMatches_body X c kind (seen, rs) match0"
  let ?v = "GetMatches_candidate kind match0"
  from Cons.prems have "m \<in> set (snd (foldl (GetMatches_body X c kind) (fst ?st, snd ?st) ms))"
    by simp
  from Cons.IH [OF this]
  consider "m \<in> set (snd ?st)"
    | "\<exists>raw \<in> set ms. m \<in> set (GetMatches_bases X c kind (GetMatches_candidate kind raw)) \<or>
        m = \<lparr>Value = GetMatches_value kind (GetMatches_candidate kind raw), Type = kind\<rparr>"
    by blast
  then show ?case
  proof cases
    case 1
    then have "m \<in> set rs \<or> m \<in> set (GetMatches_bases X c kind ?v) \<or>
        m = \<lparr>Value = GetMatches_value kind ?v, Type = kind\<rparr>"
      by (auto simp: GetMatches_body_eq Let_def split: if_splits)
    then show ?thesis by auto
  next
    case 2
    then show ?thesis by auto
  qed
qed

lemma GetMatches_base_source:
  assumes "m \<in> set (GetMatches X c text kind regex)" "Type m \<noteq> kind"
  shows "kind = ''domain'' \<and> Type m = ''base_domain'' \<and>
     (\<exists>raw \<in> set (FindAllString regex text).
        extractSecondLevelDomain X (ToLower raw) = Some (Value m))"
proof -
  from assms(1)
  have "m \<in> set (snd (foldl (GetMatches_body X c kind) (\<lambda>k. False, []) (FindAllString regex text)))"
    by (simp add: GetMatches_def)
  from GetMatches_loop_source [OF this] assms(2)
  obtain raw where raw: "raw \<in> set (FindAllString regex text)"
      "m \<in> set (GetMatches_bases X c kind (GetMatches_candidate kind raw))"
    by auto
  from GetMatches_bases_Type [OF raw(2)] have k: "kind = ''domain''" and t: "Type m = ''base_domain''"
    by simp_all
  from raw(2) k have "extractSecondLevelDomain X (ToLower raw) = Some (Value m)"
    by (auto simp: GetMatches_candidate_def GetMatches_bases_domain split: if_splits option.splits)
  with raw(1) k t show ?thesis by blast
qed

lemma ExtractAll_base_source:
  assumes "distinct order" "Expressions c ''base_domain'' = None"
    and "ExtractAll X c text order ''base_domain'' = Some ms" "m \<in> set ms"
  shows "Type m = ''base_domain'' \<and>
     (\<exists>regex. Expressions c ''domain'' = Some regex \<and>
        (\<exists>idx \<in> set (FindAllStringIndex regex text).
           extractSecondLevelDomain X (ToLower (substring text (fst idx) (snd idx))) =
             Some (Value m)))"
proof (cases "Expressions c ''domain''")
  case None
  with assms(3) show ?thesis
    by (simp add: ExtractAll_at_base_domain [OF assms(1,2)] split: if_splits)
next
  case (Some regex)
  let ?ur = "url_ranges X c text"
  from assms(3) Some
  have "ms = concat (map (ExtractAll_bases X c ''domain'') (kind_retained X c text ?ur ''domain'' regex))"
    by (simp add: ExtractAll_at_base_domain [OF assms(1,2)] some_list_def split: if_splits)
  with assms(4) obtain v where v: "v \<in> set (kind_retained X c text ?ur ''domain'' regex)"
      "m \<in> set (ExtractAll_bases X c ''domain'' v)"
    by auto
  from kind_retained_source [OF v(1)]
  obtain idx where idx: "idx \<in> set (FindAllStringIndex regex text)"
      "v = substring text (fst idx) (snd idx)"
    by blast
  from ExtractAll_bases_Type [OF v(2)] have t: "Type m = ''base_domain''"
    by simp
  from v(2) have "extractSecondLevelDomain X (ToLower v) = Some (Value m)"
    by (auto simp: ExtractAll_bases_domain split: if_splits option.splits)
  with idx Some t show ?thesis by blast
qed

lemma domain_upper_matches: "FindAllStringIndex domain_re ''Visit EXAMPLE.COM'' = [(6, 17)]"
  by code_simp

lemma url_upper_matches: "FindAllStringIndex url_re ''Visit EXAMPLE.COM'' = []"
  by code_simp

lemma domain_both_matches: "FindAllStringIndex domain_re ''EXAMPLE.COM example.com'' = [(0, 11), (12, 23)]"
  by code_simp

lemma url_both_matches: "FindAllStringIndex url_re ''EXAMPLE.COM example.com'' = []"
  by code_simp

lemma domain_sub_upper_matches: "FindAllStringIndex domain_re ''Visit SUB.TEST.ORG'' = [(6, 18)]"
  by code_simp

lemma url_sub_upper_matches: "FindAllStringIndex url_re ''Visit SUB.TEST.ORG'' = []"
  by code_simp

lemma email_mixed_matches: "FindAllStringIndex email_re ''Mail Bob@Example.COM'' = [(5, 20)]"
  by code_simp

lemma url_email_matches: "FindAllStringIndex url_re ''Mail Bob@Example.COM'' = []"
  by code_simp

lemma url_mixed_matches: "FindAllStringIndex url_re ''see HTTP://Example.COM/Path.'' = [(4, 28)]"
  by code_simp

lemma NewContextualizer_table:
  "Expressions (NewContextualizer a b d) ''domain'' = Some domain_re"
  "Expressions (NewContextualizer a b d) ''email'' = Some email_re"
  "Expressions (NewContextualizer a b d) ''url'' = Some url_re"
  by (simp_all add: NewContextualizer_def)

lemma iteration_order_kinds:
  assumes "iteration_order (NewContextualizer a b d) order"
  shows "distinct order" "''domain'' \<in> set order" "''email'' \<in> set order"
  using assms by (simp_all add: iteration_order_def NewContextualizer_dom)

lemma casing_domain:
  "filter (\<lambda>m. Type m = ''domain'')
     (GetMatches X (NewContextualizer a [] d) ''EXAMPLE.COM example.com'' ''domain'' domain_re) =
     [\<lparr>Value = ''example.com'', Type = ''domain''\<rparr>]"
  "iteration_order (NewContextualizer a [] d) order \<Longrightarrow>
     ExtractAll X (NewContextualizer a [] d) ''EXAMPLE.COM example.com'' order ''domain'' =
       Some [\<lparr>Value = ''EXAMPLE.COM'', Type = ''domain''\<rparr>]"
proof -
  let ?c = "NewContextualizer a [] d"
  let ?t = "''EXAMPLE.COM example.com''"
  have fas: "FindAllString domain_re ?t = [''EXAMPLE.COM'', ''example.com'']"
    by (simp add: FindAllString_def domain_both_matches substring_def)
  have low: "ToLower ''EXAMPLE.COM'' = ''example.com''" "ToLower ''example.com'' = ''example.com''"
    by (simp_all add: string_simps)
  show "filter (\<lambda>m. Type m = ''domain'') (GetMatches X ?c ?t ''domain'' domain_re) =
      [\<lparr>Value = ''example.com'', Type = ''domain''\<rparr>]"
    by (simp add: GetMatches_primaries fas GetMatches_candidate_def GetMatches_kept_domain
        isDomainIgnored_no_domains first_by_key_Cons low GetMatches_value_def)
  assume "iteration_order ?c order"
  note ord = iteration_order_kinds [OF this]
  have ur: "url_ranges X ?c ?t = []"
    by (simp add: url_ranges_def NewContextualizer_table url_both_matches)
  have "kind_retained X ?c ?t [] ''domain'' domain_re = [''EXAMPLE.COM'']"
    by (simp add: kind_retained_def domain_both_matches isInsideUrl_def ExtractAll_candidate_def
        substring_def ExtractAll_kept_domain isDomainIgnored_no_domains first_by_key_Cons low)
  then show "ExtractAll X ?c ?t order ''domain'' = Some [\<lparr>Value = ''EXAMPLE.COM'', Type = ''domain''\<rparr>]"
    by (simp add: ExtractAll_at_kind ord NewContextualizer_table ur some_list_def)
qed

lemma casing_email:
  "GetMatches X (NewContextualizer a [] []) ''Mail Bob@Example.COM'' ''email'' email_re =
     [\<lparr>Value = ''bob@example.com'', Type = ''email''\<rparr>]"
  "iteration_order (NewContextualizer a [] []) order \<Longrightarrow>
     ExtractAll X (NewContextualizer a [] []) ''Mail Bob@Example.COM'' order ''email'' =
       Some [\<lparr>Value = ''Bob@Example.COM'', Type = ''email''\<rparr>]"
proof -
  let ?c = "NewContextualizer a [] []"
  let ?t = "''Mail Bob@Example.COM''"
  have fas: "FindAllString email_re ?t = [''Bob@Example.COM'']"
    by (simp add: FindAllString_def email_mixed_matches substring_def)
  have low: "ToLower ''Bob@Example.COM'' = ''bob@example.com''"
    by (simp add: string_simps)
  have em: "IgnoredEmails (Checks ?c) = {}"
    by (simp add: NewContextualizer_def)
  have kept: "GetMatches_kept X ?c ''email'' ''Bob@Example.COM''"
      "ExtractAll_kept X ?c ''email'' ''Bob@Example.COM''"
    by (simp_all add: GetMatches_kept_def GetMatches_switch_def ExtractAll_kept_def
        ExtractAll_switch_def em isDomainIgnored_no_domains Let_def)
  show "GetMatches X ?c ?t ''email'' email_re = [\<lparr>Value = ''bob@example.com'', Type = ''email''\<rparr>]"
    by (simp add: GetMatches_eq_primaries fas GetMatches_candidate_def kept first_by_key_Cons low
        GetMatches_value_def)
  assume "iteration_order ?c order"
  note ord = iteration_order_kinds [OF this]
  have ur: "url_ranges X ?c ?t = []"
    by (simp add: url_ranges_def NewContextualizer_table url_email_matches)
  have "kind_retained X ?c ?t [] ''email'' email_re = [''Bob@Example.COM'']"
    by (simp add: kind_retained_def email_mixed_matches isInsideUrl_def ExtractAll_candidate_def
        substring_def kept first_by_key_Cons)
  then show "ExtractAll X ?c ?t order ''email'' = Some [\<lparr>Value = ''Bob@Example.COM'', Type = ''email''\<rparr>]"
    by (simp add: ExtractAll_at_kind ord NewContextualizer_table ur some_list_def)
qed

lemma casing_url:
  "GetMatches X (NewContextualizer a [] d) ''see HTTP://Example.COM/Path.'' ''url'' url_re =
     [\<lparr>Value = ''HTTP://Example.COM/Path'', Type = ''url''\<rparr>]"
  "ExtractAll X (NewContextualizer a [] d) ''see HTTP://Example.COM/Path.'' order ''url'' =
     Some [\<lparr>Value = ''HTTP://Example.COM/Path'', Type = ''url''\<rparr>]"
proof -
  let ?c = "NewContextualizer a [] d"
  let ?t = "''see HTTP://Example.COM/Path.''"
  have fas: "FindAllString url_re ?t = [''HTTP://Example.COM/Path.'']"
    by (simp add: FindAllString_def url_mixed_matches substring_def)
  have cand: "GetMatches_candidate ''url'' ''HTTP://Example.COM/Path.'' = ''HTTP://Example.COM/Path''"
      "ExtractAll_url_candidate ?t (4, 28) = ''HTTP://Example.COM/Path''"
    by (simp_all add: GetMatches_candidate_def ExtractAll_url_candidate_def string_simps)
  show "GetMatches X ?c ?t ''url'' url_re = [\<lparr>Value = ''HTTP://Example.COM/Path'', Type = ''url''\<rparr>]"
    by (simp add: GetMatches_eq_primaries fas cand GetMatches_kept_url url_ignored_no_domains
        first_by_key_Cons GetMatches_value_def)
  have ur: "url_ranges X ?c ?t = [(4, 28)]"
    by (simp add: url_ranges_def NewContextualizer_table url_mixed_matches url_ignored_no_domains
        first_by_key_Cons)
  show "ExtractAll X ?c ?t order ''url'' = Some [\<lparr>Value = ''HTTP://Example.COM/Path'', Type = ''url''\<rparr>]"
    by (simp add: ExtractAll_at_url url_matches_def ur cand some_list_def)
qed

lemma casing_ignored:
  "GetMatches X (NewContextualizer a [''Example.com''] d) ''Visit EXAMPLE.COM'' ''domain'' domain_re = []"
  "iteration_order (NewContextualizer a [''Example.com''] d) order \<Longrightarrow>
     ExtractAll X (NewContextualizer a [''Example.com''] d) ''Visit EXAMPLE.COM'' order ''domain'' = None"
proof -
  let ?c = "NewContextualizer a [''Example.com''] d"
  let ?t = "''Visit EXAMPLE.COM''"
  have fas: "FindAllString domain_re ?t = [''EXAMPLE.COM'']"
    by (simp add: FindAllString_def domain_upper_matches substring_def)
  have ign: "isDomainIgnored ?c (ToLower ''EXAMPLE.COM'')"
    by (simp add: isDomainIgnored_def NewContextualizer_def isDomainIgnored_loop.simps string_simps)
  show "GetMatches X ?c ?t ''domain'' domain_re = []"
    by (simp add: GetMatches_eq fas GetMatches_candidate_def GetMatches_kept_domain ign)
  assume "iteration_order ?c order"
  note ord = iteration_order_kinds [OF this]
  have ur: "url_ranges X ?c ?t = []"
    by (simp add: url_ranges_def NewContextualizer_table url_upper_matches)
  have "kind_retained X ?c ?t [] ''domain'' domain_re = []"
    by (simp add: kind_retained_def domain_upper_matches isInsideUrl_def ExtractAll_candidate_def
        substring_def ExtractAll_kept_domain ign)
  then show "ExtractAll X ?c ?t order ''domain'' = None"
    by (simp add: ExtractAll_at_kind ord NewContextualizer_table ur)
qed

lemma casing_base_domain:
  assumes "extractSecondLevelDomain X ''sub.test.org'' = Some ''test.org''"
  shows "GetMatches X (NewContextualizer a [] d) ''Visit SUB.TEST.ORG'' ''domain'' domain_re =
     [\<lparr>Value = ''test.org'', Type = ''base_domain''\<rparr>, \<lparr>Value = ''sub.test.org'', Type = ''domain''\<rparr>]"
    and "iteration_order (NewContextualizer a [] d) order \<Longrightarrow>
     ExtractAll X (NewContextualizer a [] d) ''Visit SUB.TEST.ORG'' order ''domain'' =
       Some [\<lparr>Value = ''SUB.TEST.ORG'', Type = ''domain''\<rparr>]"
    and "iteration_order (NewContextualizer a [] d) order \<Longrightarrow>
     ExtractAll X (NewContextualizer a [] d) ''Visit SUB.TEST.ORG'' order ''base_domain'' =
       Some [\<lparr>Value = ''test.org'', Type = ''base_domain''\<rparr>]"
proof -
  let ?c = "NewContextualizer a [] d"
  let ?t = "''Visit SUB.TEST.ORG''"
  have fas: "FindAllString domain_re ?t = [''SUB.TEST.ORG'']"
    by (simp add: FindAllString_def domain_sub_upper_matches substring_def)
  have low: "ToLower ''SUB.TEST.ORG'' = ''sub.test.org''"
    by (simp add: string_simps)
  show "GetMatches X ?c ?t ''domain'' domain_re =
      [\<lparr>Value = ''test.org'', Type = ''base_domain''\<rparr>, \<lparr>Value = ''sub.test.org'', Type = ''domain''\<rparr>]"
    by (simp add: GetMatches_eq fas GetMatches_candidate_def GetMatches_kept_domain
        isDomainIgnored_no_domains first_by_key_Cons GetMatches_bases_domain low assms
        GetMatches_value_def)
  have ur: "url_ranges X ?c ?t = []"
    by (simp add: url_ranges_def NewContextualizer_table url_sub_upper_matches)
  have kr: "kind_retained X ?c ?t [] ''domain'' domain_re = [''SUB.TEST.ORG'']"
    by (simp add: kind_retained_def domain_sub_upper_matches isInsideUrl_def ExtractAll_candidate_def
        substring_def ExtractAll_kept_domain isDomainIgnored_no_domains first_by_key_Cons)
  have nb: "Expressions ?c ''base_domain'' = None"
    by (simp add: NewContextualizer_def)
  {
    assume "iteration_order ?c order"
    note ord = iteration_order_kinds [OF this]
    show "ExtractAll X ?c ?t order ''domain'' = Some [\<lparr>Value = ''SUB.TEST.ORG'', Type = ''domain''\<rparr>]"
      by (simp add: ExtractAll_at_kind ord NewContextualizer_table ur kr some_list_def)
    show "ExtractAll X ?c ?t order ''base_domain'' = Some [\<lparr>Value = ''test.org'', Type = ''base_domain''\<rparr>]"
      by (simp add: ExtractAll_at_base_domain ord nb NewContextualizer_table ur kr
          ExtractAll_bases_domain isDomainIgnored_no_domains low assms some_list_def)
  }
qed

text \<open>
  Claim C4. \<^verbatim>\<open>GetMatches\<close> emits, for a candidate it retains, the case-folded form for
  the kinds \<^verbatim>\<open>domain\<close> and \<^verbatim>\<open>email\<close>, and for every other kind the candidate as it
  stands in the text (a URL trimmed of its trailing punctuation): this holds of the step
  of the loop and of the results of the kind asked for as a whole. \<^verbatim>\<open>ExtractAll\<close>
  stores, under every kind of the table, the candidate as it stands in the text, also for
  \<^verbatim>\<open>domain\<close> and \<^verbatim>\<open>email\<close> (a URL trimmed): this holds of the steps of both loops and
  of the results under the kind as a whole.

  The results of type \<^verbatim>\<open>base_domain\<close> are not pieces of the text: in both paths the
  value is what the base-domain lookup returns for the case-folded domain candidate.

  The ignore checks and the de-duplication read the case-folded candidate in both paths:
  the domain-ignore check gives the same answer for a string and its case-folded form,
  two candidates with one case-folded form are both kept or both dropped by the filter of
  every kind but \<^verbatim>\<open>ipv4\<close> (which hands the candidate to the library), and a candidate
  whose case-folded form was seen is skipped.

  At concrete texts, with no ignore rules unless said: of \<^verbatim>\<open>EXAMPLE.COM example.com\<close>
  \<^verbatim>\<open>GetMatches\<close> emits \<^verbatim>\<open>example.com\<close> once and \<^verbatim>\<open>ExtractAll\<close> stores
  \<^verbatim>\<open>EXAMPLE.COM\<close> once; the URL \<^verbatim>\<open>HTTP://Example.COM/Path\<close> keeps its casing in both
  paths; of \<^verbatim>\<open>Bob@Example.COM\<close> \<^verbatim>\<open>GetMatches\<close> emits \<^verbatim>\<open>bob@example.com\<close> and
  \<^verbatim>\<open>ExtractAll\<close> stores \<^verbatim>\<open>Bob@Example.COM\<close>; ignoring \<^verbatim>\<open>Example.com\<close> suppresses
  \<^verbatim>\<open>EXAMPLE.COM\<close> in both paths; and for \<^verbatim>\<open>SUB.TEST.ORG\<close>, with a lookup that gives
  \<^verbatim>\<open>test.org\<close> for \<^verbatim>\<open>sub.test.org\<close>, both paths produce the base domain
  \<^verbatim>\<open>test.org\<close>.
\<close>

theorem value_casing:
  "filter (\<lambda>m. Type m = kind) (GetMatches X c text kind regex) =
     map (\<lambda>v. \<lparr>Value = (if kind = ''domain'' \<or> kind = ''email'' then ToLower v else v), Type = kind\<rparr>)
       (first_by_key {} ToLower
          (filter (GetMatches_kept X c kind)
             (map (GetMatches_candidate kind) (FindAllString regex text)))) \<and>
   (\<forall>m \<in> set (GetMatches X c text kind regex). Type m = kind \<longrightarrow>
      (\<exists>raw \<in> set (FindAllString regex text).
         Value m = (if kind = ''domain'' \<or> kind = ''email'' then ToLower raw
                    else if kind = ''url'' then TrimSuffix (TrimRight raw ''/.,;:'') ''/''
                    else raw))) \<and>
   (\<not> seen (ToLower (GetMatches_candidate kind match0)) \<and>
    GetMatches_kept X c kind (GetMatches_candidate kind match0) \<longrightarrow>
      GetMatches_body X c kind (seen, rs) match0 =
        (seen(ToLower (GetMatches_candidate kind match0) := True),
         rs @ GetMatches_bases X c kind (GetMatches_candidate kind match0) @
           [\<lparr>Value = (if kind = ''domain'' \<or> kind = ''email''
                      then ToLower (GetMatches_candidate kind match0)
                      else GetMatches_candidate kind match0),
             Type = kind\<rparr>])) \<and>
   (seen (ToLower (GetMatches_candidate kind match0)) \<longrightarrow>
      GetMatches_body X c kind (seen, rs) match0 = (seen, rs)) \<and>
   (ExtractAll X c text order k = Some ms \<and> k \<noteq> ''url'' \<and> k \<noteq> ''base_domain'' \<longrightarrow>
      (\<forall>m \<in> set ms. Type m = k \<and>
         (\<exists>regex. Expressions c k = Some regex \<and>
            (\<exists>idx \<in> set (FindAllStringIndex regex text).
               Value m = substring text (fst idx) (snd idx))))) \<and>
   (ExtractAll X c text order ''url'' = Some ms \<longrightarrow>
      (\<forall>m \<in> set ms. Type m = ''url'' \<and>
         (\<exists>regex. Expressions c ''url'' = Some regex \<and>
            (\<exists>idx \<in> set (FindAllStringIndex regex text).
               Value m = TrimSuffix (TrimRight (substring text (fst idx) (snd idx)) ''/.,;:'') ''/'')))) \<and>
   (distinct order \<and> k \<in> set order \<and> k \<noteq> ''url'' \<and> k \<noteq> ''base_domain'' \<and>
    Expressions c k = Some regex \<longrightarrow>
      ExtractAll X c text order k =
        some_list (map (\<lambda>v. \<lparr>Value = v, Type = k\<rparr>)
          (first_by_key {} ToLower
             (filter (ExtractAll_kept X c k)
                (map (\<lambda>idx. substring text (fst idx) (snd idx))
                   (filter (\<lambda>idx. \<not> isInsideUrl (url_ranges X c text) idx)
                      (FindAllStringIndex regex text))))))) \<and>
   ExtractAll X c text order ''url'' =
     some_list (map (\<lambda>idx. \<lparr>Value = TrimSuffix (TrimRight (substring text (fst idx) (snd idx)) ''/.,;:'') ''/'',
                            Type = ''url''\<rparr>)
       (url_ranges X c text)) \<and>
   (\<not> isInsideUrl urlRanges idx \<and> \<not> seen (ToLower (substring text (fst idx) (snd idx))) \<and>
    ExtractAll_kept X c kind (substring text (fst idx) (snd idx)) \<longrightarrow>
      ExtractAll_body X c text urlRanges kind (seen, results) idx =
        (seen(ToLower (substring text (fst idx) (snd idx)) := True),
         append_result
           (add_all results (ExtractAll_bases X c kind (substring text (fst idx) (snd idx))))
           kind \<lparr>Value = substring text (fst idx) (snd idx), Type = kind\<rparr>)) \<and>
   (seen (ToLower (substring text (fst idx) (snd idx))) \<longrightarrow>
      ExtractAll_body X c text urlRanges kind (seen, results) idx = (seen, results)) \<and>
   (\<not> url_ignored X c (ExtractAll_url_candidate text idx) \<and>
    \<not> seen (ToLower (ExtractAll_url_candidate text idx)) \<longrightarrow>
      ExtractAll_url_body X c text (urlRanges, results, seen) idx =
        (urlRanges @ [idx],
         append_result results ''url''
           \<lparr>Value = TrimSuffix (TrimRight (substring text (fst idx) (snd idx)) ''/.,;:'') ''/'',
            Type = ''url''\<rparr>,
         seen(ToLower (ExtractAll_url_candidate text idx) := True))) \<and>
   (seen (ToLower (ExtractAll_url_candidate text idx)) \<longrightarrow>
      ExtractAll_url_body X c text (urlRanges, results, seen) idx = (urlRanges, results, seen)) \<and>
   (\<forall>m \<in> set (GetMatches X c text kind regex). Type m \<noteq> kind \<longrightarrow>
      kind = ''domain'' \<and> Type m = ''base_domain'' \<and>
      (\<exists>raw \<in> set (FindAllString regex text).
         extractSecondLevelDomain X (ToLower raw) = Some (Value m))) \<and>
   (distinct order \<and> Expressions c ''base_domain'' = None \<and>
    ExtractAll X c text order ''base_domain'' = Some ms \<longrightarrow>
      (\<forall>m \<in> set ms. Type m = ''base_domain'' \<and>
         (\<exists>regex. Expressions c ''domain'' = Some regex \<and>
            (\<exists>idx \<in> set (FindAllStringIndex regex text).
               extractSecondLevelDomain X (ToLower (substring text (fst idx) (snd idx))) =
                 Some (Value m))))) \<and>
   isDomainIgnored c (ToLower v) = isDomainIgnored c v \<and>
   (ToLower v = ToLower v' \<longrightarrow> url_ignored X c v = url_ignored X c v') \<and>
   (kind \<noteq> ''ipv4'' \<and> ToLower v = ToLower v' \<longrightarrow>
      GetMatches_kept X c kind v = GetMatches_kept X c kind v' \<and>
      ExtractAll_kept X c kind v = ExtractAll_kept X c kind v') \<and>
   (iteration_order (NewContextualizer a [] d) order \<longrightarrow>
      filter (\<lambda>m. Type m = ''domain'')
        (GetMatches X (NewContextualizer a [] d) ''EXAMPLE.COM example.com'' ''domain'' domain_re) =
        [\<lparr>Value = ''example.com'', Type = ''domain''\<rparr>] \<and>
      ExtractAll X (NewContextualizer a [] d) ''EXAMPLE.COM example.com'' order ''domain'' =
        Some [\<lparr>Value = ''EXAMPLE.COM'', Type = ''domain''\<rparr>]) \<and>
   GetMatches X (NewContextualizer a [] d) ''see HTTP://Example.COM/Path.'' ''url'' url_re =
     [\<lparr>Value = ''HTTP://Example.COM/Path'', Type = ''url''\<rparr>] \<and>
   ExtractAll X (NewContextualizer a [] d) ''see HTTP://Example.COM/Path.'' order ''url'' =
     Some [\<lparr>Value = ''HTTP://Example.COM/Path'', Type = ''url''\<rparr>] \<and>
   (iteration_order (NewContextualizer a [] []) order \<longrightarrow>
      GetMatches X (NewContextualizer a [] []) ''Mail Bob@Example.COM'' ''email'' email_re =
        [\<lparr>Value = ''bob@example.com'', Type = ''email''\<rparr>] \<and>
      ExtractAll X (NewContextualizer a [] []) ''Mail Bob@Example.COM'' order ''email'' =
        Some [\<lparr>Value = ''Bob@Example.COM'', Type = ''email''\<rparr>]) \<and>
   (iteration_order (NewContextualizer a [''Example.com''] d) order \<longrightarrow>
      GetMatches X (NewContextualizer a [''Example.com''] d) ''Visit EXAMPLE.COM'' ''domain'' domain_re = [] \<and>
      ExtractAll X (NewContextualizer a [''Example.com''] d) ''Visit EXAMPLE.COM'' order ''domain'' = None) \<and>
   (extractSecondLevelDomain X ''sub.test.org'' = Some ''test.org'' \<and>
    iteration_order (NewContextualizer a [] d) order \<longrightarrow>
      GetMatches X (NewContextualizer a [] d) ''Visit SUB.TEST.ORG'' ''domain'' domain_re =
        [\<lparr>Value = ''test.org'', Type = ''base_domain''\<rparr>,
         \<lparr>Value = ''sub.test.org'', Type = ''domain''\<rparr>] \<and>
      ExtractAll X (NewContextualizer a [] d) ''Visit SUB.TEST.ORG'' order ''domain'' =
        Some [\<lparr>Value = ''SUB.TEST.ORG'', Type = ''domain''\<rparr>] \<and>
      ExtractAll X (NewContextualizer a [] d) ''Visit SUB.TEST.ORG'' order ''base_domain'' =
        Some [\<lparr>Value = ''test.org'', Type = ''base_domain''\<rparr>])"
proof (intro conjI ballI impI)
  show "filter (\<lambda>m. Type m = kind) (GetMatches X c text kind regex) =
     map (\<lambda>v. \<lparr>Value = (if kind = ''domain'' \<or> kind = ''email'' then ToLower v else v), Type = kind\<rparr>)
       (first_by_key {} ToLower
          (filter (GetMatches_kept X c kind)
             (map (GetMatches_candidate kind) (FindAllString regex text))))"
    by (simp add: GetMatches_primaries GetMatches_value_def)
next
  fix m
  assume "m \<in> set (GetMatches X c text kind regex)" "Type m = kind"
  from GetMatches_primary_source [OF this]
  show "\<exists>raw \<in> set (FindAllString regex text).
         Value m = (if kind = ''domain'' \<or> kind = ''email'' then ToLower raw
                    else if kind = ''url'' then TrimSuffix (TrimRight raw ''/.,;:'') ''/''
                    else raw)"
    by (auto simp: GetMatches_value_def GetMatches_candidate_def)
next
  assume "\<not> seen (ToLower (GetMatches_candidate kind match0)) \<and>
    GetMatches_kept X c kind (GetMatches_candidate kind match0)"
  then show "GetMatches_body X c kind (seen, rs) match0 =
        (seen(ToLower (GetMatches_candidate kind match0) := True),
         rs @ GetMatches_bases X c kind (GetMatches_candidate kind match0) @
           [\<lparr>Value = (if kind = ''domain'' \<or> kind = ''email''
                      then ToLower (GetMatches_candidate kind match0)
                      else GetMatches_candidate kind match0),
             Type = kind\<rparr>])"
    by (simp add: GetMatches_body_eq Let_def GetMatches_kept_def GetMatches_value_def)
next
  assume "seen (ToLower (GetMatches_candidate kind match0))"
  then show "GetMatches_body X c kind (seen, rs) match0 = (seen, rs)"
    by (simp add: GetMatches_body_eq Let_def)
next
  fix m
  assume "ExtractAll X c text order k = Some ms \<and> k \<noteq> ''url'' \<and> k \<noteq> ''base_domain''"
    and "m \<in> set ms"
  then show "Type m = k"
    and "\<exists>regex. Expressions c k = Some regex \<and>
            (\<exists>idx \<in> set (FindAllStringIndex regex text).
               Value m = substring text (fst idx) (snd idx))"
    using ExtractAll_kind_source [of X c "text" order k ms m] by simp_all
next
  fix m
  assume "ExtractAll X c text order ''url'' = Some ms" and "m \<in> set ms"
  then show "Type m = ''url''"
    and "\<exists>regex. Expressions c ''url'' = Some regex \<and>
            (\<exists>idx \<in> set (FindAllStringIndex regex text).
               Value m = TrimSuffix (TrimRight (substring text (fst idx) (snd idx)) ''/.,;:'') ''/'')"
    using ExtractAll_url_source [of X c "text" order ms m] by simp_all
next
  assume "distinct order \<and> k \<in> set order \<and> k \<noteq> ''url'' \<and> k \<noteq> ''base_domain'' \<and>
    Expressions c k = Some regex"
  moreover have "ExtractAll_candidate text = (\<lambda>idx. substring text (fst idx) (snd idx))"
    by (intro ext) (simp add: ExtractAll_candidate_def)
  ultimately show "ExtractAll X c text order k =
        some_list (map (\<lambda>v. \<lparr>Value = v, Type = k\<rparr>)
          (first_by_key {} ToLower
             (filter (ExtractAll_kept X c k)
                (map (\<lambda>idx. substring text (fst idx) (snd idx))
                   (filter (\<lambda>idx. \<not> isInsideUrl (url_ranges X c text) idx)
                      (FindAllStringIndex regex text))))))"
    by (simp add: ExtractAll_at_kind kind_retained_def)
next
  show "ExtractAll X c text order ''url'' =
     some_list (map (\<lambda>idx. \<lparr>Value = TrimSuffix (TrimRight (substring text (fst idx) (snd idx)) ''/.,;:'') ''/'',
                            Type = ''url''\<rparr>)
       (url_ranges X c text))"
    by (simp add: ExtractAll_at_url url_matches_def ExtractAll_url_candidate_def)
next
  assume "\<not> isInsideUrl urlRanges idx \<and> \<not> seen (ToLower (substring text (fst idx) (snd idx))) \<and>
    ExtractAll_kept X c kind (substring text (fst idx) (snd idx))"
  then show "ExtractAll_body X c text urlRanges kind (seen, results) idx =
        (seen(ToLower (substring text (fst idx) (snd idx)) := True),
         append_result
           (add_all results (ExtractAll_bases X c kind (substring text (fst idx) (snd idx))))
           kind \<lparr>Value = substring text (fst idx) (snd idx), Type = kind\<rparr>)"
    by (simp add: ExtractAll_body_eq Let_def ExtractAll_candidate_def add_all_append add_all_Cons)
next
  assume "seen (ToLower (substring text (fst idx) (snd idx)))"
  then show "ExtractAll_body X c text urlRanges kind (seen, results) idx = (seen, results)"
    by (simp add: ExtractAll_body_eq Let_def ExtractAll_candidate_def)
next
  assume "\<not> url_ignored X c (ExtractAll_url_candidate text idx) \<and>
    \<not> seen (ToLower (ExtractAll_url_candidate text idx))"
  then have "ExtractAll_url_body X c text (urlRanges, results, seen) idx =
        (urlRanges @ [idx],
         append_result results ''url'' \<lparr>Value = ExtractAll_url_candidate text idx, Type = ''url''\<rparr>,
         seen(ToLower (ExtractAll_url_candidate text idx) := True))"
    by (simp add: ExtractAll_url_body_eq Let_def add_all_Cons)
  then show "ExtractAll_url_body X c text (urlRanges, results, seen) idx =
        (urlRanges @ [idx],
         append_result results ''url''
           \<lparr>Value = TrimSuffix (TrimRight (substring text (fst idx) (snd idx)) ''/.,;:'') ''/'',
            Type = ''url''\<rparr>,
         seen(ToLower (ExtractAll_url_candidate text idx) := True))"
    by (simp add: ExtractAll_url_candidate_def)
next
  assume "seen (ToLower (ExtractAll_url_candidate text idx))"
  then show "ExtractAll_url_body X c text (urlRanges, results, seen) idx = (urlRanges, results, seen)"
    by (simp add: ExtractAll_url_body_eq Let_def)
next
  fix m
  assume "m \<in> set (GetMatches X c text kind regex)" "Type m \<noteq> kind"
  from GetMatches_base_source [OF this]
  show "kind = ''domain''" and "Type m = ''base_domain''"
    and "\<exists>raw \<in> set (FindAllString regex text).
         extractSecondLevelDomain X (ToLower raw) = Some (Value m)"
    by simp_all
next
  fix m
  assume "distinct order \<and> Expressions c ''base_domain'' = None \<and>
    ExtractAll X c text order ''base_domain'' = Some ms" and "m \<in> set ms"
  then show "Type m = ''base_domain''"
    and "\<exists>regex. Expressions c ''domain'' = Some regex \<and>
            (\<exists>idx \<in> set (FindAllStringIndex regex text).
               extractSecondLevelDomain X (ToLower (substring text (fst idx) (snd idx))) =
                 Some (Value m))"
    using ExtractAll_base_source [of order c X "text" ms m] by simp_all
next
  show "isDomainIgnored c (ToLower v) = isDomainIgnored c v"
    by (rule isDomainIgnored_fold)
next
  assume "ToLower v = ToLower v'"
  then show "url_ignored X c v = url_ignored X c v'"
    by (rule url_ignored_fold)
next
  assume "kind \<noteq> ''ipv4'' \<and> ToLower v = ToLower v'"
  then have h: "kind \<noteq> ''ipv4''" "ToLower v = ToLower v'"
    by simp_all
  show "GetMatches_kept X c kind v = GetMatches_kept X c kind v'"
    by (rule GetMatches_kept_fold [OF h])
  show "ExtractAll_kept X c kind v = ExtractAll_kept X c kind v'"
    by (rule ExtractAll_kept_fold [OF h])
next
  show "filter (\<lambda>m. Type m = ''domain'')
        (GetMatches X (NewContextualizer a [] d) ''EXAMPLE.COM example.com'' ''domain'' domain_re) =
        [\<lparr>Value = ''example.com'', Type = ''domain''\<rparr>]"
    by (rule casing_domain(1))
next
  assume "iteration_order (NewContextualizer a [] d) order"
  then show "ExtractAll X (NewContextualizer a [] d) ''EXAMPLE.COM example.com'' order ''domain'' =
        Some [\<lparr>Value = ''EXAMPLE.COM'', Type = ''domain''\<rparr>]"
    by (rule casing_domain(2))
next
  show "GetMatches X (NewContextualizer a [] d) ''see HTTP://Example.COM/Path.'' ''url'' url_re =
     [\<lparr>Value = ''HTTP://Example.COM/Path'', Type = ''url''\<rparr>]"
    by (rule casing_url(1))
next
  show "ExtractAll X (NewContextualizer a [] d) ''see HTTP://Example.COM/Path.'' order ''url'' =
     Some [\<lparr>Value = ''HTTP://Example.COM/Path'', Type = ''url''\<rparr>]"
    by (rule casing_url(2))
next
  show "GetMatches X (NewContextualizer a [] []) ''Mail Bob@Example.COM'' ''email'' email_re =
        [\<lparr>Value = ''bob@example.com'', Type = ''email''\<rparr>]"
    by (rule casing_email(1))
next
  assume "iteration_order (NewContextualizer a [] []) order"
  then show "ExtractAll X (NewContextualizer a [] []) ''Mail Bob@Example.COM'' order ''email'' =
        Some [\<lparr>Value = ''Bob@Example.COM'', Type = ''email''\<rparr>]"
    by (rule casing_email(2))
next
  show "GetMatches X (NewContextualizer a [''Example.com''] d) ''Visit EXAMPLE.COM'' ''domain'' domain_re = []"
    by (rule casing_ignored(1))
next
  assume "iteration_order (NewContextualizer a [''Example.com''] d) order"
  then show "ExtractAll X (NewContextualizer a [''Example.com''] d) ''Visit EXAMPLE.COM'' order ''domain'' = None"
    by (rule casing_ignored(2))
next
  assume h: "extractSecondLevelDomain X ''sub.test.org'' = Some ''test.org'' \<and>
    iteration_order (NewContextualizer a [] d) order"
  then show "GetMatches X (NewContextualizer a [] d) ''Visit SUB.TEST.ORG'' ''domain'' domain_re =
        [\<lparr>Value = ''test.org'', Type = ''base_domain''\<rparr>,
         \<lparr>Value = ''sub.test.org'', Type = ''domain''\<rparr>]"
    by (simp add: casing_base_domain(1))
  from h show "ExtractAll X (NewContextualizer a [] d) ''Visit SUB.TEST.ORG'' order ''domain'' =
        Some [\<lparr>Value = ''SUB.TEST.ORG'', Type = ''domain''\<rparr>]"
    by (simp add: casing_base_domain(2))
  from h show "ExtractAll X (NewContextualizer a [] d) ''Visit SUB.TEST.ORG'' order ''base_domain'' =
        Some [\<lparr>Value = ''test.org'', Type = ''base_domain''\<rparr>]"
    by (simp add: casing_base_domain(3))
qed

text \<open>
  The theorem with the library instance, at the text \<^verbatim>\<open>Visit EXAMPLE.COM\<close> and the
  candidate \<^verbatim>\<open>EXAMPLE.COM\<close> at \<open>(6, 17)\<close>, and at the texts of the last part.
\<close>

theorem value_casing_witness:
  "GetMatches stdlib (NewContextualizer False [] []) ''Visit EXAMPLE.COM'' ''domain'' domain_re =
     [\<lparr>Value = ''example.com'', Type = ''domain''\<rparr>] \<and>
   (\<exists>raw \<in> set (FindAllString domain_re ''Visit EXAMPLE.COM''). ''example.com'' = ToLower raw) \<and>
   ExtractAll stdlib (NewContextualizer False [] []) ''Visit EXAMPLE.COM'' table_order ''domain'' =
     Some [\<lparr>Value = ''EXAMPLE.COM'', Type = ''domain''\<rparr>] \<and>
   (\<exists>idx \<in> set (FindAllStringIndex domain_re ''Visit EXAMPLE.COM'').
      ''EXAMPLE.COM'' = substring ''Visit EXAMPLE.COM'' (fst idx) (snd idx)) \<and>
   GetMatches_body stdlib (NewContextualizer False [] []) ''domain'' (\<lambda>k. False, []) ''EXAMPLE.COM'' =
     ((\<lambda>k. False)(''example.com'' := True), [\<lparr>Value = ''example.com'', Type = ''domain''\<rparr>]) \<and>
   ExtractAll_body stdlib (NewContextualizer False [] []) ''Visit EXAMPLE.COM'' [] ''domain''
       (\<lambda>k. False, Map.empty) (6, 17) =
     ((\<lambda>k. False)(''example.com'' := True),
      [''domain'' \<mapsto> [\<lparr>Value = ''EXAMPLE.COM'', Type = ''domain''\<rparr>]]) \<and>
   GetMatches_kept stdlib (NewContextualizer False [] []) ''domain'' ''EXAMPLE.COM'' =
     GetMatches_kept stdlib (NewContextualizer False [] []) ''domain'' ''example.com'' \<and>
   filter (\<lambda>m. Type m = ''domain'')
     (GetMatches stdlib (NewContextualizer False [] []) ''EXAMPLE.COM example.com'' ''domain'' domain_re) =
     [\<lparr>Value = ''example.com'', Type = ''domain''\<rparr>] \<and>
   ExtractAll stdlib (NewContextualizer False [] []) ''EXAMPLE.COM example.com'' table_order ''domain'' =
     Some [\<lparr>Value = ''EXAMPLE.COM'', Type = ''domain''\<rparr>] \<and>
   GetMatches stdlib (NewContextualizer False [] []) ''see HTTP://Example.COM/Path.'' ''url'' url_re =
     [\<lparr>Value = ''HTTP://Example.COM/Path'', Type = ''url''\<rparr>] \<and>
   ExtractAll stdlib (NewContextualizer False [] []) ''see HTTP://Example.COM/Path.'' table_order ''url'' =
     Some [\<lparr>Value = ''HTTP://Example.COM/Path'', Type = ''url''\<rparr>] \<and>
   GetMatches stdlib (NewContextualizer False [] []) ''Mail Bob@Example.COM'' ''email'' email_re =
     [\<lparr>Value = ''bob@example.com'', Type = ''email''\<rparr>] \<and>
   ExtractAll stdlib (NewContextualizer False [] []) ''Mail Bob@Example.COM'' table_order ''email'' =
     Some [\<lparr>Value = ''Bob@Example.COM'', Type = ''email''\<rparr>] \<and>
   GetMatches stdlib (NewContextualizer False [''Example.com''] []) ''Visit EXAMPLE.COM'' ''domain''
     domain_re = [] \<and>
   ExtractAll stdlib (NewContextualizer False [''Example.com''] []) ''Visit EXAMPLE.COM'' table_order
     ''domain'' = None \<and>
   GetMatches stdlib (NewContextualizer False [] []) ''Visit SUB.TEST.ORG'' ''domain'' domain_re =
     [\<lparr>Value = ''test.org'', Type = ''base_domain''\<rparr>, \<lparr>Value = ''sub.test.org'', Type = ''domain''\<rparr>] \<and>
   ExtractAll stdlib (NewContextualizer False [] []) ''Visit SUB.TEST.ORG'' table_order ''domain'' =
     Some [\<lparr>Value = ''SUB.TEST.ORG'', Type = ''domain''\<rparr>] \<and>
   ExtractAll stdlib (NewContextualizer False [] []) ''Visit SUB.TEST.ORG'' table_order ''base_domain'' =
     Some [\<lparr>Value = ''test.org'', Type = ''base_domain''\<rparr>] \<and>
   GetMatches_body stdlib (NewContextualizer False [] []) ''domain''
       ((\<lambda>k. False)(''example.com'' := True), []) ''EXAMPLE.COM'' =
     ((\<lambda>k. False)(''example.com'' := True), []) \<and>
   ExtractAll_body stdlib (NewContextualizer False [] []) ''Visit EXAMPLE.COM'' [] ''domain''
       ((\<lambda>k. False)(''example.com'' := True), Map.empty) (6, 17) =
     ((\<lambda>k. False)(''example.com'' := True), Map.empty) \<and>
   url_ignored stdlib (NewContextualizer False [] []) ''EXAMPLE.COM'' =
     url_ignored stdlib (NewContextualizer False [] []) ''example.com'' \<and>
   GetMatches_body stdlib (NewContextualizer False [] []) ''url'' (\<lambda>k. False, [])
       ''HTTP://Example.COM/Path.'' =
     ((\<lambda>k. False)(''http://example.com/path'' := True),
      [\<lparr>Value = ''HTTP://Example.COM/Path'', Type = ''url''\<rparr>]) \<and>
   ExtractAll_url_body stdlib (NewContextualizer False [] []) ''see HTTP://Example.COM/Path.''
       ([], Map.empty, \<lambda>k. False) (4, 28) =
     ([(4, 28)], [''url'' \<mapsto> [\<lparr>Value = ''HTTP://Example.COM/Path'', Type = ''url''\<rparr>]],
      (\<lambda>k. False)(''http://example.com/path'' := True)) \<and>
   ExtractAll_url_body stdlib (NewContextualizer False [] []) ''see HTTP://Example.COM/Path.''
       ([], Map.empty, (\<lambda>k. False)(''http://example.com/path'' := True)) (4, 28) =
     ([], Map.empty, (\<lambda>k. False)(''http://example.com/path'' := True)) \<and>
   (\<exists>idx \<in> set (FindAllStringIndex url_re ''see HTTP://Example.COM/Path.'').
      ''HTTP://Example.COM/Path'' =
        TrimSuffix (TrimRight (substring ''see HTTP://Example.COM/Path.'' (fst idx) (snd idx)) ''/.,;:'') ''/'') \<and>
   (\<exists>raw \<in> set (FindAllString domain_re ''Visit SUB.TEST.ORG'').
      extractSecondLevelDomain stdlib (ToLower raw) = Some ''test.org'') \<and>
   (\<exists>idx \<in> set (FindAllStringIndex domain_re ''Visit SUB.TEST.ORG'').
      extractSecondLevelDomain stdlib (ToLower (substring ''Visit SUB.TEST.ORG'' (fst idx) (snd idx))) =
        Some ''test.org'')"
proof -
  let ?c = "NewContextualizer False [] []"
  let ?t = "''Visit EXAMPLE.COM''"
  have fas: "FindAllString domain_re ?t = [''EXAMPLE.COM'']"
    by (simp add: FindAllString_def domain_upper_matches substring_def)
  have low: "ToLower ''EXAMPLE.COM'' = ''example.com''" "ToLower ''example.com'' = ''example.com''"
    by (simp_all add: string_simps)
  have etld: "extractSecondLevelDomain stdlib ''example.com'' = Some ''example.com''"
      "extractSecondLevelDomain stdlib ''sub.test.org'' = Some ''test.org''"
    by (simp_all add: extractSecondLevelDomain_def stdlib_def go_EffectiveTLDPlusOne_def)
  have bases: "GetMatches_bases stdlib ?c ''domain'' ''EXAMPLE.COM'' = []"
      "ExtractAll_bases stdlib ?c ''domain'' ''EXAMPLE.COM'' = []"
    by (simp_all add: GetMatches_bases_domain ExtractAll_bases_domain low etld)
  have kept: "GetMatches_kept stdlib ?c ''domain'' ''EXAMPLE.COM''"
      "ExtractAll_kept stdlib ?c ''domain'' ''EXAMPLE.COM''"
    by (simp_all add: GetMatches_kept_domain ExtractAll_kept_domain isDomainIgnored_no_domains)
  have cand: "substring ?t 6 17 = ''EXAMPLE.COM''"
    by (simp add: substring_def)
  have gm: "GetMatches stdlib ?c ?t ''domain'' domain_re = [\<lparr>Value = ''example.com'', Type = ''domain''\<rparr>]"
    by (simp add: GetMatches_eq fas GetMatches_candidate_def kept first_by_key_Cons bases low
        GetMatches_value_def)
  have re: "Expressions ?c ''domain'' = Some domain_re" "Expressions ?c ''url'' = Some url_re"
    by (simp_all add: NewContextualizer_def)
  have ur: "url_ranges stdlib ?c ?t = []"
    by (simp add: url_ranges_def re url_upper_matches)
  have ord: "distinct table_order" "''domain'' \<in> set table_order"
    by (simp_all add: table_order_def)
  note it = table_order_iteration [of False "[]" "[]"]
  note it' = table_order_iteration [of False "[''Example.com'']" "[]"]
  note inst = value_casing [of "''domain''" stdlib ?c ?t domain_re "\<lambda>k. False" "''EXAMPLE.COM''" "[]"
      table_order "''domain''" "[\<lparr>Value = ''EXAMPLE.COM'', Type = ''domain''\<rparr>]" "[]" "(6, 17)"
      Map.empty "''EXAMPLE.COM''" "''example.com''" False "[]"]
  note r2 = inst [THEN conjunct2, THEN conjunct2]
  note r4 = r2 [THEN conjunct2, THEN conjunct2]
  note r6 = r4 [THEN conjunct2, THEN conjunct2]
  note r8 = r6 [THEN conjunct2, THEN conjunct2]
  note r16 = r8 [THEN conjunct2, THEN conjunct2, THEN conjunct2, THEN conjunct2,
      THEN conjunct2, THEN conjunct2, THEN conjunct2, THEN conjunct2]
  note r17 = r16 [THEN conjunct2]
  note r20 = r17 [THEN conjunct2, THEN conjunct2, THEN conjunct2]
  from r6 [THEN conjunct1] ord re(1) ur kept
  have ea: "ExtractAll stdlib ?c ?t table_order ''domain'' =
      Some [\<lparr>Value = ''EXAMPLE.COM'', Type = ''domain''\<rparr>]"
    by (simp add: domain_upper_matches isInsideUrl_def cand first_by_key_Cons some_list_def)
  from inst [THEN conjunct2, THEN conjunct1] gm
  have w2: "\<exists>raw \<in> set (FindAllString domain_re ?t). ''example.com'' = ToLower raw"
    by simp
  from r4 [THEN conjunct1] ea
  have w4: "\<exists>idx \<in> set (FindAllStringIndex domain_re ?t).
      ''EXAMPLE.COM'' = substring ?t (fst idx) (snd idx)"
    using re(1) by simp
  from r2 [THEN conjunct1] kept(1)
  have w5: "GetMatches_body stdlib ?c ''domain'' (\<lambda>k. False, []) ''EXAMPLE.COM'' =
      ((\<lambda>k. False)(''example.com'' := True), [\<lparr>Value = ''example.com'', Type = ''domain''\<rparr>])"
    by (simp add: GetMatches_candidate_def bases low)
  from r8 [THEN conjunct1] kept(2)
  have w6: "ExtractAll_body stdlib ?c ?t [] ''domain'' (\<lambda>k. False, Map.empty) (6, 17) =
      ((\<lambda>k. False)(''example.com'' := True),
       [''domain'' \<mapsto> [\<lparr>Value = ''EXAMPLE.COM'', Type = ''domain''\<rparr>]])"
    by (simp add: isInsideUrl_def cand bases low append_result_def)
  from r16 [THEN conjunct1] low
  have w7: "GetMatches_kept stdlib ?c ''domain'' ''EXAMPLE.COM'' =
      GetMatches_kept stdlib ?c ''domain'' ''example.com''"
    by simp
  from r17 [THEN conjunct1] it
  have w8: "filter (\<lambda>m. Type m = ''domain'')
        (GetMatches stdlib ?c ''EXAMPLE.COM example.com'' ''domain'' domain_re) =
        [\<lparr>Value = ''example.com'', Type = ''domain''\<rparr>] \<and>
      ExtractAll stdlib ?c ''EXAMPLE.COM example.com'' table_order ''domain'' =
        Some [\<lparr>Value = ''EXAMPLE.COM'', Type = ''domain''\<rparr>]"
    by simp
  from r17 [THEN conjunct2, THEN conjunct1] r17 [THEN conjunct2, THEN conjunct2, THEN conjunct1]
  have w9: "GetMatches stdlib ?c ''see HTTP://Example.COM/Path.'' ''url'' url_re =
        [\<lparr>Value = ''HTTP://Example.COM/Path'', Type = ''url''\<rparr>] \<and>
      ExtractAll stdlib ?c ''see HTTP://Example.COM/Path.'' table_order ''url'' =
        Some [\<lparr>Value = ''HTTP://Example.COM/Path'', Type = ''url''\<rparr>]"
    by simp
  from r20 [THEN conjunct1] it
  have w10: "GetMatches stdlib ?c ''Mail Bob@Example.COM'' ''email'' email_re =
        [\<lparr>Value = ''bob@example.com'', Type = ''email''\<rparr>] \<and>
      ExtractAll stdlib ?c ''Mail Bob@Example.COM'' table_order ''email'' =
        Some [\<lparr>Value = ''Bob@Example.COM'', Type = ''email''\<rparr>]"
    by simp
  from r20 [THEN conjunct2, THEN conjunct1] it'
  have w11: "GetMatches stdlib (NewContextualizer False [''Example.com''] []) ?t ''domain'' domain_re = [] \<and>
      ExtractAll stdlib (NewContextualizer False [''Example.com''] []) ?t table_order ''domain'' = None"
    by simp
  from r20 [THEN conjunct2, THEN conjunct2] it etld(2)
  have w12: "GetMatches stdlib ?c ''Visit SUB.TEST.ORG'' ''domain'' domain_re =
        [\<lparr>Value = ''test.org'', Type = ''base_domain''\<rparr>, \<lparr>Value = ''sub.test.org'', Type = ''domain''\<rparr>] \<and>
      ExtractAll stdlib ?c ''Visit SUB.TEST.ORG'' table_order ''domain'' =
        Some [\<lparr>Value = ''SUB.TEST.ORG'', Type = ''domain''\<rparr>] \<and>
      ExtractAll stdlib ?c ''Visit SUB.TEST.ORG'' table_order ''base_domain'' =
        Some [\<lparr>Value = ''test.org'', Type = ''base_domain''\<rparr>]"
    by simp
  let ?seen = "(\<lambda>k. False)(''example.com'' := True)"
  let ?u = "''see HTTP://Example.COM/Path.''"
  let ?useen = "(\<lambda>k. False)(''http://example.com/path'' := True)"
  let ?b = "''Visit SUB.TEST.ORG''"
  let ?bm = "\<lparr>Value = ''test.org'', Type = ''base_domain''\<rparr>"
  have ucand: "GetMatches_candidate ''url'' ''HTTP://Example.COM/Path.'' = ''HTTP://Example.COM/Path''"
      "ExtractAll_url_candidate ?u (4, 28) = ''HTTP://Example.COM/Path''"
      "TrimSuffix (TrimRight (substring ?u 4 28) ''/.,;:'') ''/'' = ''HTTP://Example.COM/Path''"
      "ToLower ''HTTP://Example.COM/Path'' = ''http://example.com/path''"
    by (simp_all add: GetMatches_candidate_def ExtractAll_url_candidate_def string_simps)
  have ukept: "GetMatches_kept stdlib ?c ''url'' ''HTTP://Example.COM/Path''"
      "\<not> url_ignored stdlib ?c ''HTTP://Example.COM/Path''"
    by (simp_all add: GetMatches_kept_url url_ignored_no_domains)
  have ubases: "GetMatches_bases stdlib ?c ''url'' ''HTTP://Example.COM/Path'' = []"
    by (simp add: GetMatches_bases_other)
  note dup = value_casing [of "''domain''" stdlib ?c ?t domain_re ?seen "''EXAMPLE.COM''" "[]"
      table_order "''domain''" "[\<lparr>Value = ''EXAMPLE.COM'', Type = ''domain''\<rparr>]" "[]" "(6, 17)"
      Map.empty "''EXAMPLE.COM''" "''example.com''" False "[]"]
  note url = value_casing [of "''url''" stdlib ?c ?u url_re "\<lambda>k. False" "''HTTP://Example.COM/Path.''" "[]"
      table_order "''domain''" "[\<lparr>Value = ''HTTP://Example.COM/Path'', Type = ''url''\<rparr>]" "[]" "(4, 28)"
      Map.empty "''EXAMPLE.COM''" "''example.com''" False "[]"]
  note udup = value_casing [of "''url''" stdlib ?c ?u url_re ?useen "''HTTP://Example.COM/Path.''" "[]"
      table_order "''domain''" "[\<lparr>Value = ''HTTP://Example.COM/Path'', Type = ''url''\<rparr>]" "[]" "(4, 28)"
      Map.empty "''EXAMPLE.COM''" "''example.com''" False "[]"]
  note base = value_casing [of "''domain''" stdlib ?c ?b domain_re "\<lambda>k. False" "''SUB.TEST.ORG''" "[]"
      table_order "''domain''" "[?bm]" "[]" "(6, 18)"
      Map.empty "''EXAMPLE.COM''" "''example.com''" False "[]"]
  note d2 = dup [THEN conjunct2, THEN conjunct2]
  note d8 = d2 [THEN conjunct2, THEN conjunct2, THEN conjunct2, THEN conjunct2, THEN conjunct2,
      THEN conjunct2]
  from d2 [THEN conjunct2, THEN conjunct1]
  have w13: "GetMatches_body stdlib ?c ''domain'' (?seen, []) ''EXAMPLE.COM'' = (?seen, [])"
    by (simp add: GetMatches_candidate_def low)
  from d8 [THEN conjunct2, THEN conjunct1]
  have w14: "ExtractAll_body stdlib ?c ?t [] ''domain'' (?seen, Map.empty) (6, 17) = (?seen, Map.empty)"
    by (simp add: cand low)
  from r8 [THEN conjunct2, THEN conjunct2, THEN conjunct2, THEN conjunct2, THEN conjunct2,
      THEN conjunct2, THEN conjunct2, THEN conjunct1] low
  have w15: "url_ignored stdlib ?c ''EXAMPLE.COM'' = url_ignored stdlib ?c ''example.com''"
    by simp
  note u2 = url [THEN conjunct2, THEN conjunct2]
  from u2 [THEN conjunct1] ukept(1)
  have w16: "GetMatches_body stdlib ?c ''url'' (\<lambda>k. False, []) ''HTTP://Example.COM/Path.'' =
      (?useen, [\<lparr>Value = ''HTTP://Example.COM/Path'', Type = ''url''\<rparr>])"
    by (simp add: ucand ubases)
  note u10 = u2 [THEN conjunct2, THEN conjunct2, THEN conjunct2, THEN conjunct2, THEN conjunct2,
      THEN conjunct2, THEN conjunct2, THEN conjunct2]
  from u10 [THEN conjunct1] ukept(2)
  have w17: "ExtractAll_url_body stdlib ?c ?u ([], Map.empty, \<lambda>k. False) (4, 28) =
      ([(4, 28)], [''url'' \<mapsto> [\<lparr>Value = ''HTTP://Example.COM/Path'', Type = ''url''\<rparr>]], ?useen)"
    by (simp add: ucand append_result_def)
  from udup [THEN conjunct2, THEN conjunct2, THEN conjunct2, THEN conjunct2, THEN conjunct2,
      THEN conjunct2, THEN conjunct2, THEN conjunct2, THEN conjunct2, THEN conjunct2,
      THEN conjunct2, THEN conjunct1]
  have w18: "ExtractAll_url_body stdlib ?c ?u ([], Map.empty, ?useen) (4, 28) = ([], Map.empty, ?useen)"
    by (simp add: ucand)
  from u2 [THEN conjunct2, THEN conjunct2, THEN conjunct2, THEN conjunct1] w9 [THEN conjunct2]
  have w19: "\<exists>idx \<in> set (FindAllStringIndex url_re ?u).
      ''HTTP://Example.COM/Path'' =
        TrimSuffix (TrimRight (substring ?u (fst idx) (snd idx)) ''/.,;:'') ''/''"
    using re(2) by simp
  note b12 = base [THEN conjunct2, THEN conjunct2, THEN conjunct2, THEN conjunct2, THEN conjunct2,
      THEN conjunct2, THEN conjunct2, THEN conjunct2, THEN conjunct2, THEN conjunct2,
      THEN conjunct2, THEN conjunct2]
  have "?bm \<in> set (GetMatches stdlib ?c ?b ''domain'' domain_re)"
    by (simp add: w12 [THEN conjunct1])
  with b12 [THEN conjunct1]
  have w20: "\<exists>raw \<in> set (FindAllString domain_re ?b).
      extractSecondLevelDomain stdlib (ToLower raw) = Some ''test.org''"
    by fastforce
  have nb: "Expressions ?c ''base_domain'' = None"
    by (simp add: NewContextualizer_def)
  from b12 [THEN conjunct2, THEN conjunct1] ord(1) nb w12 [THEN conjunct2, THEN conjunct2]
  have w21: "\<exists>idx \<in> set (FindAllStringIndex domain_re ?b).
      extractSecondLevelDomain stdlib (ToLower (substring ?b (fst idx) (snd idx))) = Some ''test.org''"
    using re(1) by simp
  from gm w2 ea w4 w5 w6 w7 w8 w9 w10 w11 w12 w13 w14 w15 w16 w17 w18 w19 w20 w21 show ?thesis
    by blast
qed

text \<open>
  Claim C4 as stated says that \<^verbatim>\<open>ExtractAll\<close> stores the original source casing for
  all kinds. For the text \<^verbatim>\<open>Visit SUB.TEST.ORG\<close> the result of type \<^verbatim>\<open>base_domain\<close>
  is \<^verbatim>\<open>test.org\<close>, which does not occur in the text; \<^verbatim>\<open>GetMatches\<close> emits the same
  base domain.
\<close>

theorem base_domain_casing_counterexample:
  "ExtractAll stdlib (NewContextualizer False [] []) ''Visit SUB.TEST.ORG'' table_order ''domain'' =
     Some [\<lparr>Value = ''SUB.TEST.ORG'', Type = ''domain''\<rparr>] \<and>
   ExtractAll stdlib (NewContextualizer False [] []) ''Visit SUB.TEST.ORG'' table_order ''base_domain'' =
     Some [\<lparr>Value = ''test.org'', Type = ''base_domain''\<rparr>] \<and>
   GetMatches stdlib (NewContextualizer False [] []) ''Visit SUB.TEST.ORG'' ''domain'' domain_re =
     [\<lparr>Value = ''test.org'', Type = ''base_domain''\<rparr>, \<lparr>Value = ''sub.test.org'', Type = ''domain''\<rparr>] \<and>
   \<not> sublist ''test.org'' ''Visit SUB.TEST.ORG''"
proof -
  have etld: "extractSecondLevelDomain stdlib ''sub.test.org'' = Some ''test.org''"
    by (simp add: extractSecondLevelDomain_def stdlib_def go_EffectiveTLDPlusOne_def)
  have "\<not> sublist ''test.org'' ''Visit SUB.TEST.ORG''"
    by code_simp
  with casing_base_domain [OF etld, of False "[]"] table_order_iteration [of False "[]" "[]"]
  show ?thesis
    by simp
qed

section \<open>Base domains\<close>

lemma domain_sub_matches: "FindAllStringIndex domain_re ''visit sub.test.org'' = [(6, 18)]"
  by code_simp

lemma url_sub_matches: "FindAllStringIndex url_re ''visit sub.test.org'' = []"
  by code_simp

text \<open>
  Claim C5. A domain candidate that is not a duplicate and is not ignored is processed as
  follows, in \<^verbatim>\<open>GetMatches\<close> (where it is also not empty) and in \<^verbatim>\<open>ExtractAll\<close> (where
  it is also not inside a URL range). When the base-domain lookup succeeds with a
  non-empty value that differs from the case-folded candidate and is not ignored, exactly
  one result of type \<^verbatim>\<open>base_domain\<close> with that value is appended, and then the domain
  match. When the lookup fails, only the domain match is appended. With no ignore rules,
  and a lookup that gives \<^verbatim>\<open>test.org\<close> for \<^verbatim>\<open>sub.test.org\<close>, the text
  \<^verbatim>\<open>visit sub.test.org\<close> yields the domain match \<^verbatim>\<open>sub.test.org\<close> and the base-domain
  match \<^verbatim>\<open>test.org\<close> in both paths.
\<close>

theorem base_domain_synthesis:
  "(\<not> seen (ToLower v) \<and> v \<noteq> [] \<and> \<not> isDomainIgnored c (ToLower v) \<and>
    extractSecondLevelDomain X (ToLower v) = Some b \<and> b \<noteq> [] \<and> b \<noteq> ToLower v \<and>
    \<not> isDomainIgnored c b \<longrightarrow>
      GetMatches_body X c ''domain'' (seen, rs) v =
        (seen(ToLower v := True),
         rs @ [\<lparr>Value = b, Type = ''base_domain''\<rparr>, \<lparr>Value = ToLower v, Type = ''domain''\<rparr>])) \<and>
   (\<not> seen (ToLower v) \<and> v \<noteq> [] \<and> \<not> isDomainIgnored c (ToLower v) \<and>
    extractSecondLevelDomain X (ToLower v) = None \<longrightarrow>
      GetMatches_body X c ''domain'' (seen, rs) v =
        (seen(ToLower v := True), rs @ [\<lparr>Value = ToLower v, Type = ''domain''\<rparr>])) \<and>
   (\<not> isInsideUrl ur idx \<and> \<not> seen (ToLower (ExtractAll_candidate text idx)) \<and>
    \<not> isDomainIgnored c (ToLower (ExtractAll_candidate text idx)) \<and>
    extractSecondLevelDomain X (ToLower (ExtractAll_candidate text idx)) = Some b \<and>
    b \<noteq> [] \<and> b \<noteq> ToLower (ExtractAll_candidate text idx) \<and> \<not> isDomainIgnored c b \<longrightarrow>
      ExtractAll_body X c text ur ''domain'' (seen, results) idx =
        (seen(ToLower (ExtractAll_candidate text idx) := True),
         append_result
           (append_result results ''base_domain'' \<lparr>Value = b, Type = ''base_domain''\<rparr>)
           ''domain'' \<lparr>Value = ExtractAll_candidate text idx, Type = ''domain''\<rparr>)) \<and>
   (\<not> isInsideUrl ur idx \<and> \<not> seen (ToLower (ExtractAll_candidate text idx)) \<and>
    \<not> isDomainIgnored c (ToLower (ExtractAll_candidate text idx)) \<and>
    extractSecondLevelDomain X (ToLower (ExtractAll_candidate text idx)) = None \<longrightarrow>
      ExtractAll_body X c text ur ''domain'' (seen, results) idx =
        (seen(ToLower (ExtractAll_candidate text idx) := True),
         append_result results ''domain''
           \<lparr>Value = ExtractAll_candidate text idx, Type = ''domain''\<rparr>)) \<and>
   (extractSecondLevelDomain X ''sub.test.org'' = Some ''test.org'' \<longrightarrow>
      GetMatches X (NewContextualizer a [] []) ''visit sub.test.org'' ''domain'' domain_re =
        [\<lparr>Value = ''test.org'', Type = ''base_domain''\<rparr>,
         \<lparr>Value = ''sub.test.org'', Type = ''domain''\<rparr>]) \<and>
   (extractSecondLevelDomain X ''sub.test.org'' = Some ''test.org'' \<and>
    iteration_order (NewContextualizer a [] []) order \<longrightarrow>
      ExtractAll X (NewContextualizer a [] []) ''visit sub.test.org'' order ''domain'' =
        Some [\<lparr>Value = ''sub.test.org'', Type = ''domain''\<rparr>] \<and>
      ExtractAll X (NewContextualizer a [] []) ''visit sub.test.org'' order ''base_domain'' =
        Some [\<lparr>Value = ''test.org'', Type = ''base_domain''\<rparr>])"
proof (intro conjI impI)
  assume "\<not> seen (ToLower v) \<and> v \<noteq> [] \<and> \<not> isDomainIgnored c (ToLower v) \<and>
    extractSecondLevelDomain X (ToLower v) = Some b \<and> b \<noteq> [] \<and> b \<noteq> ToLower v \<and>
    \<not> isDomainIgnored c b"
  then show "GetMatches_body X c ''domain'' (seen, rs) v =
        (seen(ToLower v := True),
         rs @ [\<lparr>Value = b, Type = ''base_domain''\<rparr>, \<lparr>Value = ToLower v, Type = ''domain''\<rparr>])"
    by (simp add: GetMatches_body_domain GetMatches_bases_domain)
next
  assume "\<not> seen (ToLower v) \<and> v \<noteq> [] \<and> \<not> isDomainIgnored c (ToLower v) \<and>
    extractSecondLevelDomain X (ToLower v) = None"
  then show "GetMatches_body X c ''domain'' (seen, rs) v =
        (seen(ToLower v := True), rs @ [\<lparr>Value = ToLower v, Type = ''domain''\<rparr>])"
    by (simp add: GetMatches_body_domain GetMatches_bases_domain)
next
  assume "\<not> isInsideUrl ur idx \<and> \<not> seen (ToLower (ExtractAll_candidate text idx)) \<and>
    \<not> isDomainIgnored c (ToLower (ExtractAll_candidate text idx)) \<and>
    extractSecondLevelDomain X (ToLower (ExtractAll_candidate text idx)) = Some b \<and>
    b \<noteq> [] \<and> b \<noteq> ToLower (ExtractAll_candidate text idx) \<and> \<not> isDomainIgnored c b"
  then show "ExtractAll_body X c text ur ''domain'' (seen, results) idx =
        (seen(ToLower (ExtractAll_candidate text idx) := True),
         append_result
           (append_result results ''base_domain'' \<lparr>Value = b, Type = ''base_domain''\<rparr>)
           ''domain'' \<lparr>Value = ExtractAll_candidate text idx, Type = ''domain''\<rparr>)"
    by (simp add: ExtractAll_body_domain ExtractAll_bases_domain add_all_Cons)
next
  assume "\<not> isInsideUrl ur idx \<and> \<not> seen (ToLower (ExtractAll_candidate text idx)) \<and>
    \<not> isDomainIgnored c (ToLower (ExtractAll_candidate text idx)) \<and>
    extractSecondLevelDomain X (ToLower (ExtractAll_candidate text idx)) = None"
  then show "ExtractAll_body X c text ur ''domain'' (seen, results) idx =
        (seen(ToLower (ExtractAll_candidate text idx) := True),
         append_result results ''domain''
           \<lparr>Value = ExtractAll_candidate text idx, Type = ''domain''\<rparr>)"
    by (simp add: ExtractAll_body_domain ExtractAll_bases_domain)
next
  let ?c = "NewContextualizer a [] []"
  let ?t = "''visit sub.test.org''"
  assume etld: "extractSecondLevelDomain X ''sub.test.org'' = Some ''test.org''"
  have fas: "FindAllString domain_re ?t = [''sub.test.org'']"
    by (simp add: FindAllString_def domain_sub_matches substring_def)
  have low: "ToLower ''sub.test.org'' = ''sub.test.org''"
    by (simp add: string_simps)
  show "GetMatches X ?c ?t ''domain'' domain_re =
        [\<lparr>Value = ''test.org'', Type = ''base_domain''\<rparr>,
         \<lparr>Value = ''sub.test.org'', Type = ''domain''\<rparr>]"
    by (simp add: GetMatches_eq fas GetMatches_candidate_def GetMatches_kept_domain
        isDomainIgnored_no_domains first_by_key_Cons GetMatches_bases_domain low etld
        GetMatches_value_def)
next
  let ?c = "NewContextualizer a [] []"
  let ?t = "''visit sub.test.org''"
  assume a: "extractSecondLevelDomain X ''sub.test.org'' = Some ''test.org'' \<and>
    iteration_order ?c order"
  then have etld: "extractSecondLevelDomain X ''sub.test.org'' = Some ''test.org''"
    and ord: "distinct order" "''domain'' \<in> set order"
    by (simp_all add: iteration_order_def NewContextualizer_dom)
  have re: "Expressions ?c ''domain'' = Some domain_re" "Expressions ?c ''url'' = Some url_re"
      "Expressions ?c ''base_domain'' = None"
    by (simp_all add: NewContextualizer_def)
  have low: "ToLower ''sub.test.org'' = ''sub.test.org''"
    by (simp add: string_simps)
  have ur: "url_ranges X ?c ?t = []"
    by (simp add: url_ranges_def re url_sub_matches)
  have kr: "kind_retained X ?c ?t [] ''domain'' domain_re = [''sub.test.org'']"
    by (simp add: kind_retained_def domain_sub_matches isInsideUrl_def ExtractAll_candidate_def
        substring_def ExtractAll_kept_domain isDomainIgnored_no_domains first_by_key_Cons)
  show "ExtractAll X ?c ?t order ''domain'' = Some [\<lparr>Value = ''sub.test.org'', Type = ''domain''\<rparr>]"
    by (simp add: ExtractAll_at_kind ord re ur kr some_list_def)
  show "ExtractAll X ?c ?t order ''base_domain'' =
      Some [\<lparr>Value = ''test.org'', Type = ''base_domain''\<rparr>]"
    by (simp add: ExtractAll_at_base_domain ord re ur kr some_list_def ExtractAll_bases_domain
        isDomainIgnored_no_domains low etld)
qed


text \<open>
  The theorem with the library instance: at \<^verbatim>\<open>sub.test.org\<close>, where the lookup
  succeeds, and at \<^verbatim>\<open>a..com\<close>, which has an empty label, so that the lookup fails.
\<close>

theorem base_domain_synthesis_witness:
  "GetMatches_body stdlib (NewContextualizer False [] []) ''domain'' (\<lambda>k. False, []) ''sub.test.org'' =
     ((\<lambda>k. False)(''sub.test.org'' := True),
      [\<lparr>Value = ''test.org'', Type = ''base_domain''\<rparr>, \<lparr>Value = ''sub.test.org'', Type = ''domain''\<rparr>]) \<and>
   GetMatches_body stdlib (NewContextualizer False [] []) ''domain'' (\<lambda>k. False, []) ''a..com'' =
     ((\<lambda>k. False)(''a..com'' := True), [\<lparr>Value = ''a..com'', Type = ''domain''\<rparr>]) \<and>
   ExtractAll_body stdlib (NewContextualizer False [] []) ''visit sub.test.org'' [] ''domain''
       (\<lambda>k. False, Map.empty) (6, 18) =
     ((\<lambda>k. False)(''sub.test.org'' := True),
      [''base_domain'' \<mapsto> [\<lparr>Value = ''test.org'', Type = ''base_domain''\<rparr>],
       ''domain'' \<mapsto> [\<lparr>Value = ''sub.test.org'', Type = ''domain''\<rparr>]]) \<and>
   ExtractAll_body stdlib (NewContextualizer False [] []) ''visit a..com'' [] ''domain''
       (\<lambda>k. False, Map.empty) (6, 12) =
     ((\<lambda>k. False)(''a..com'' := True), [''domain'' \<mapsto> [\<lparr>Value = ''a..com'', Type = ''domain''\<rparr>]]) \<and>
   GetMatches stdlib (NewContextualizer False [] []) ''visit sub.test.org'' ''domain'' domain_re =
     [\<lparr>Value = ''test.org'', Type = ''base_domain''\<rparr>, \<lparr>Value = ''sub.test.org'', Type = ''domain''\<rparr>] \<and>
   ExtractAll stdlib (NewContextualizer False [] []) ''visit sub.test.org'' table_order ''domain'' =
     Some [\<lparr>Value = ''sub.test.org'', Type = ''domain''\<rparr>] \<and>
   ExtractAll stdlib (NewContextualizer False [] []) ''visit sub.test.org'' table_order ''base_domain'' =
     Some [\<lparr>Value = ''test.org'', Type = ''base_domain''\<rparr>]"
proof -
  let ?c = "NewContextualizer False [] []"
  have low: "ToLower ''sub.test.org'' = ''sub.test.org''" "ToLower ''a..com'' = ''a..com''"
      "ToLower ''test.org'' = ''test.org''"
    by (simp_all add: string_simps)
  have cand: "ExtractAll_candidate ''visit sub.test.org'' (6, 18) = ''sub.test.org''"
      "ExtractAll_candidate ''visit a..com'' (6, 12) = ''a..com''"
    by (simp_all add: ExtractAll_candidate_def substring_def)
  have etld: "extractSecondLevelDomain stdlib ''sub.test.org'' = Some ''test.org''"
      "extractSecondLevelDomain stdlib ''a..com'' = None"
    by (simp_all add: extractSecondLevelDomain_def stdlib_def go_EffectiveTLDPlusOne_def)
  have ign: "\<not> isDomainIgnored ?c d" for d
    by (simp add: isDomainIgnored_no_domains)
  have ins: "\<not> isInsideUrl [] idx" for idx
    by (simp add: isInsideUrl_def)
  note one = base_domain_synthesis [of "\<lambda>k. False" "''sub.test.org''" ?c stdlib "''test.org''" "[]"
      "[]" "(6, 18)" "''visit sub.test.org''" Map.empty False table_order]
  note two = base_domain_synthesis [of "\<lambda>k. False" "''a..com''" ?c stdlib "''test.org''" "[]"
      "[]" "(6, 12)" "''visit a..com''" Map.empty False table_order]
  from one [THEN conjunct1] low etld ign
  have g1: "GetMatches_body stdlib ?c ''domain'' (\<lambda>k. False, []) ''sub.test.org'' =
     ((\<lambda>k. False)(''sub.test.org'' := True),
      [\<lparr>Value = ''test.org'', Type = ''base_domain''\<rparr>, \<lparr>Value = ''sub.test.org'', Type = ''domain''\<rparr>])"
    by simp
  from two [THEN conjunct2, THEN conjunct1] low etld ign
  have g2: "GetMatches_body stdlib ?c ''domain'' (\<lambda>k. False, []) ''a..com'' =
     ((\<lambda>k. False)(''a..com'' := True), [\<lparr>Value = ''a..com'', Type = ''domain''\<rparr>])"
    by simp
  from one [THEN conjunct2, THEN conjunct2, THEN conjunct1] low etld ign ins cand
  have e1: "ExtractAll_body stdlib ?c ''visit sub.test.org'' [] ''domain'' (\<lambda>k. False, Map.empty) (6, 18) =
     ((\<lambda>k. False)(''sub.test.org'' := True),
      [''base_domain'' \<mapsto> [\<lparr>Value = ''test.org'', Type = ''base_domain''\<rparr>],
       ''domain'' \<mapsto> [\<lparr>Value = ''sub.test.org'', Type = ''domain''\<rparr>]])"
    by (simp add: append_result_def)
  from two [THEN conjunct2, THEN conjunct2, THEN conjunct2, THEN conjunct1] low etld ign ins cand
  have e2: "ExtractAll_body stdlib ?c ''visit a..com'' [] ''domain'' (\<lambda>k. False, Map.empty) (6, 12) =
     ((\<lambda>k. False)(''a..com'' := True), [''domain'' \<mapsto> [\<lparr>Value = ''a..com'', Type = ''domain''\<rparr>]])"
    by (simp add: append_result_def)
  from one [THEN conjunct2, THEN conjunct2, THEN conjunct2, THEN conjunct2] etld(1)
    table_order_iteration [of False "[]" "[]"]
  have rest: "GetMatches stdlib ?c ''visit sub.test.org'' ''domain'' domain_re =
     [\<lparr>Value = ''test.org'', Type = ''base_domain''\<rparr>, \<lparr>Value = ''sub.test.org'', Type = ''domain''\<rparr>] \<and>
   ExtractAll stdlib ?c ''visit sub.test.org'' table_order ''domain'' =
     Some [\<lparr>Value = ''sub.test.org'', Type = ''domain''\<rparr>] \<and>
   ExtractAll stdlib ?c ''visit sub.test.org'' table_order ''base_domain'' =
     Some [\<lparr>Value = ''test.org'', Type = ''base_domain''\<rparr>]"
    by blast
  from g1 g2 e1 e2 rest show ?thesis
    by blast
qed

section \<open>Private addresses\<close>

lemma GetMatches_body_ipv4:
  assumes "\<not> seen (ToLower v)" "v \<noteq> []"
  shows "GetMatches_body X c ''ipv4'' (seen, rs) v =
     (if IgnorePrivateIPs (Checks c) \<and> isPrivateIP X v then (seen, rs)
      else (seen(ToLower v := True), rs @ [\<lparr>Value = v, Type = ''ipv4''\<rparr>]))"
proof -
  have kept: "GetMatches_switch X c ''ipv4'' v (ToLower v) [] = None \<longleftrightarrow>
      IgnorePrivateIPs (Checks c) \<and> isPrivateIP X v"
    by (simp add: GetMatches_switch_def)
  show ?thesis
    using assms
    by (simp add: GetMatches_body_eq GetMatches_candidate_def GetMatches_value_def Let_def kept
        GetMatches_bases_other)
qed

lemma ExtractAll_body_ipv4:
  assumes "\<not> isInsideUrl ur idx" "\<not> seen (ToLower (ExtractAll_candidate text idx))"
  shows "ExtractAll_body X c text ur ''ipv4'' (seen, results) idx =
     (if IgnorePrivateIPs (Checks c) \<and> isPrivateIP X (ExtractAll_candidate text idx)
      then (seen, results)
      else (seen(ToLower (ExtractAll_candidate text idx) := True),
            append_result results ''ipv4''
              \<lparr>Value = ExtractAll_candidate text idx, Type = ''ipv4''\<rparr>))"
proof -
  have "ExtractAll_bases X c ''ipv4'' (ExtractAll_candidate text idx) = []"
    using ExtractAll_bases_Type [of _ X c "''ipv4''" "ExtractAll_candidate text idx"]
    by (cases "ExtractAll_bases X c ''ipv4'' (ExtractAll_candidate text idx)") fastforce+
  with assms show ?thesis
    by (simp add: ExtractAll_body_eq Let_def ExtractAll_kept_ipv4 add_all_Cons)
qed

lemma ipv4_private_matches: "FindAllStringIndex ipv4_re ''192.168.1.1'' = [(0, 11)]"
  by code_simp

lemma ipv4_public_matches: "FindAllStringIndex ipv4_re ''8.8.8.8'' = [(0, 7)]"
  by code_simp

text \<open>
  Claim C6. The private-IP predicate holds for a literal exactly when the literal parses
  as an address that is private, loopback or link-local unicast; a literal that does not
  parse is not private. In both paths an \<^verbatim>\<open>ipv4\<close> candidate that reaches the filter is
  dropped exactly when the flag \<^verbatim>\<open>IgnorePrivateIPs\<close> is set and the predicate holds for
  it; otherwise it is appended. With the flag set, and a library that parses
  \<^verbatim>\<open>192.168.1.1\<close> as a private address, the text \<^verbatim>\<open>192.168.1.1\<close> yields no match;
  with a library for which \<^verbatim>\<open>8.8.8.8\<close> is in none of the three ranges, the text
  \<^verbatim>\<open>8.8.8.8\<close> yields exactly the one match of that value.
\<close>

theorem private_ip_suppression:
  "(isPrivateIP X s \<longleftrightarrow>
      (\<exists>ip. net_ParseIP X s = Some ip \<and>
            (IP_IsPrivate X ip \<or> IP_IsLoopback X ip \<or> IP_IsLinkLocalUnicast X ip))) \<and>
   (net_ParseIP X s = None \<longrightarrow> \<not> isPrivateIP X s) \<and>
   (\<not> seen (ToLower v) \<and> v \<noteq> [] \<longrightarrow>
      GetMatches_body X c ''ipv4'' (seen, rs) v =
        (if IgnorePrivateIPs (Checks c) \<and> isPrivateIP X v then (seen, rs)
         else (seen(ToLower v := True), rs @ [\<lparr>Value = v, Type = ''ipv4''\<rparr>]))) \<and>
   (\<not> isInsideUrl ur idx \<and> \<not> seen (ToLower (ExtractAll_candidate text idx)) \<longrightarrow>
      ExtractAll_body X c text ur ''ipv4'' (seen, results) idx =
        (if IgnorePrivateIPs (Checks c) \<and> isPrivateIP X (ExtractAll_candidate text idx)
         then (seen, results)
         else (seen(ToLower (ExtractAll_candidate text idx) := True),
               append_result results ''ipv4''
                 \<lparr>Value = ExtractAll_candidate text idx, Type = ''ipv4''\<rparr>))) \<and>
   (IgnorePrivateIPs (Checks c) \<and> net_ParseIP X ''192.168.1.1'' = Some ip1 \<and> IP_IsPrivate X ip1 \<longrightarrow>
      GetMatches X c ''192.168.1.1'' ''ipv4'' ipv4_re = []) \<and>
   (net_ParseIP X ''8.8.8.8'' = Some ip2 \<and> \<not> IP_IsPrivate X ip2 \<and> \<not> IP_IsLoopback X ip2 \<and>
    \<not> IP_IsLinkLocalUnicast X ip2 \<longrightarrow>
      GetMatches X c ''8.8.8.8'' ''ipv4'' ipv4_re = [\<lparr>Value = ''8.8.8.8'', Type = ''ipv4''\<rparr>])"
proof (intro conjI impI)
  show "isPrivateIP X s \<longleftrightarrow>
      (\<exists>ip. net_ParseIP X s = Some ip \<and>
            (IP_IsPrivate X ip \<or> IP_IsLoopback X ip \<or> IP_IsLinkLocalUnicast X ip))"
    by (simp add: isPrivateIP_def split: option.splits)
next
  assume "net_ParseIP X s = None"
  then show "\<not> isPrivateIP X s"
    by (simp add: isPrivateIP_def)
next
  assume "\<not> seen (ToLower v) \<and> v \<noteq> []"
  then show "GetMatches_body X c ''ipv4'' (seen, rs) v =
        (if IgnorePrivateIPs (Checks c) \<and> isPrivateIP X v then (seen, rs)
         else (seen(ToLower v := True), rs @ [\<lparr>Value = v, Type = ''ipv4''\<rparr>]))"
    by (simp add: GetMatches_body_ipv4)
next
  assume "\<not> isInsideUrl ur idx \<and> \<not> seen (ToLower (ExtractAll_candidate text idx))"
  then show "ExtractAll_body X c text ur ''ipv4'' (seen, results) idx =
        (if IgnorePrivateIPs (Checks c) \<and> isPrivateIP X (ExtractAll_candidate text idx)
         then (seen, results)
         else (seen(ToLower (ExtractAll_candidate text idx) := True),
               append_result results ''ipv4''
                 \<lparr>Value = ExtractAll_candidate text idx, Type = ''ipv4''\<rparr>))"
    by (simp add: ExtractAll_body_ipv4)
next
  assume a: "IgnorePrivateIPs (Checks c) \<and> net_ParseIP X ''192.168.1.1'' = Some ip1 \<and> IP_IsPrivate X ip1"
  then have "isPrivateIP X ''192.168.1.1''"
    by (simp add: isPrivateIP_def)
  with a have "\<not> GetMatches_kept X c ''ipv4'' ''192.168.1.1''"
    by (simp add: GetMatches_kept_ipv4)
  moreover have "FindAllString ipv4_re ''192.168.1.1'' = [''192.168.1.1'']"
    by (simp add: FindAllString_def ipv4_private_matches substring_def)
  ultimately show "GetMatches X c ''192.168.1.1'' ''ipv4'' ipv4_re = []"
    by (simp add: GetMatches_eq_primaries GetMatches_candidate_def)
next
  assume a: "net_ParseIP X ''8.8.8.8'' = Some ip2 \<and> \<not> IP_IsPrivate X ip2 \<and> \<not> IP_IsLoopback X ip2 \<and>
    \<not> IP_IsLinkLocalUnicast X ip2"
  then have "\<not> isPrivateIP X ''8.8.8.8''"
    by (simp add: isPrivateIP_def)
  then have "GetMatches_kept X c ''ipv4'' ''8.8.8.8''"
    by (simp add: GetMatches_kept_ipv4)
  moreover have "FindAllString ipv4_re ''8.8.8.8'' = [''8.8.8.8'']"
    by (simp add: FindAllString_def ipv4_public_matches substring_def)
  ultimately show "GetMatches X c ''8.8.8.8'' ''ipv4'' ipv4_re = [\<lparr>Value = ''8.8.8.8'', Type = ''ipv4''\<rparr>]"
    by (simp add: GetMatches_eq_primaries GetMatches_candidate_def first_by_key_Cons
        GetMatches_value_def)
qed

lemma go_ParseIP_private:
  "go_ParseIP ''192.168.1.1'' = Some [0, 0, 0, 0, 0, 0, 0, 0, 0, 0, 0xff, 0xff, 192, 168, 1, 1]"
  by code_simp

lemma go_ParseIP_public:
  "go_ParseIP ''8.8.8.8'' = Some [0, 0, 0, 0, 0, 0, 0, 0, 0, 0, 0xff, 0xff, 8, 8, 8, 8]"
  by code_simp

lemma go_ParseIP_bad: "go_ParseIP ''999.1.1.1'' = None"
  by code_simp

lemma go_private_class:
  "go_IsPrivate [0, 0, 0, 0, 0, 0, 0, 0, 0, 0, 0xff, 0xff, 192, 168, 1, 1]"
  "\<not> go_IsPrivate [0, 0, 0, 0, 0, 0, 0, 0, 0, 0, 0xff, 0xff, 8, 8, 8, 8]"
  "\<not> go_IsLoopback [0, 0, 0, 0, 0, 0, 0, 0, 0, 0, 0xff, 0xff, 8, 8, 8, 8]"
  "\<not> go_IsLinkLocalUnicast [0, 0, 0, 0, 0, 0, 0, 0, 0, 0, 0xff, 0xff, 8, 8, 8, 8]"
  by code_simp+


text \<open>
  The theorem with the library instance and suppression enabled. The literal
  \<^verbatim>\<open>999.1.1.1\<close> matches the pattern and does not parse: it is kept.
\<close>

theorem private_ip_suppression_witness:
  "isPrivateIP stdlib ''192.168.1.1'' \<and>
   net_ParseIP stdlib ''999.1.1.1'' = None \<and> \<not> isPrivateIP stdlib ''999.1.1.1'' \<and>
   GetMatches_body stdlib (NewContextualizer True [] []) ''ipv4'' (\<lambda>k. False, []) ''192.168.1.1'' =
     (\<lambda>k. False, []) \<and>
   GetMatches_body stdlib (NewContextualizer True [] []) ''ipv4'' (\<lambda>k. False, []) ''999.1.1.1'' =
     ((\<lambda>k. False)(''999.1.1.1'' := True), [\<lparr>Value = ''999.1.1.1'', Type = ''ipv4''\<rparr>]) \<and>
   ExtractAll_body stdlib (NewContextualizer True [] []) ''192.168.1.1'' [] ''ipv4''
       (\<lambda>k. False, Map.empty) (0, 11) = (\<lambda>k. False, Map.empty) \<and>
   GetMatches stdlib (NewContextualizer True [] []) ''192.168.1.1'' ''ipv4'' ipv4_re = [] \<and>
   GetMatches stdlib (NewContextualizer True [] []) ''8.8.8.8'' ''ipv4'' ipv4_re =
     [\<lparr>Value = ''8.8.8.8'', Type = ''ipv4''\<rparr>]"
proof -
  let ?c = "NewContextualizer True [] []"
  let ?priv = "[0, 0, 0, 0, 0, 0, 0, 0, 0, 0, 0xff, 0xff, 192, 168, 1, 1] :: IP"
  let ?pub = "[0, 0, 0, 0, 0, 0, 0, 0, 0, 0, 0xff, 0xff, 8, 8, 8, 8] :: IP"
  have flag: "IgnorePrivateIPs (Checks ?c)"
    by (simp add: NewContextualizer_def)
  have parse: "net_ParseIP stdlib ''192.168.1.1'' = Some ?priv"
      "net_ParseIP stdlib ''8.8.8.8'' = Some ?pub" "net_ParseIP stdlib ''999.1.1.1'' = None"
    by (simp_all add: stdlib_def go_ParseIP_private go_ParseIP_public go_ParseIP_bad)
  have cls: "IP_IsPrivate stdlib ?priv" "\<not> IP_IsPrivate stdlib ?pub" "\<not> IP_IsLoopback stdlib ?pub"
      "\<not> IP_IsLinkLocalUnicast stdlib ?pub"
    by (simp_all add: stdlib_def go_private_class)
  have low: "ToLower ''192.168.1.1'' = ''192.168.1.1''" "ToLower ''999.1.1.1'' = ''999.1.1.1''"
    by (simp_all add: string_simps)
  have cand: "ExtractAll_candidate ''192.168.1.1'' (0, 11) = ''192.168.1.1''"
    by (simp add: ExtractAll_candidate_def substring_def)
  have ins: "\<not> isInsideUrl [] (0, 11)"
    by (simp add: isInsideUrl_def)
  note one = private_ip_suppression [of stdlib "''192.168.1.1''" "\<lambda>k. False" "''192.168.1.1''" ?c "[]"
      "[]" "(0, 11)" "''192.168.1.1''" Map.empty ?priv ?pub]
  note two = private_ip_suppression [of stdlib "''999.1.1.1''" "\<lambda>k. False" "''999.1.1.1''" ?c "[]"
      "[]" "(0, 11)" "''192.168.1.1''" Map.empty ?priv ?pub]
  from one [THEN conjunct1] parse(1) cls(1) have p1: "isPrivateIP stdlib ''192.168.1.1''"
    by simp
  from two [THEN conjunct2, THEN conjunct1] parse(3) have p2: "\<not> isPrivateIP stdlib ''999.1.1.1''"
    by simp
  from one [THEN conjunct2, THEN conjunct2, THEN conjunct1] low flag p1
  have g1: "GetMatches_body stdlib ?c ''ipv4'' (\<lambda>k. False, []) ''192.168.1.1'' = (\<lambda>k. False, [])"
    by simp
  from two [THEN conjunct2, THEN conjunct2, THEN conjunct1] low p2
  have g2: "GetMatches_body stdlib ?c ''ipv4'' (\<lambda>k. False, []) ''999.1.1.1'' =
     ((\<lambda>k. False)(''999.1.1.1'' := True), [\<lparr>Value = ''999.1.1.1'', Type = ''ipv4''\<rparr>])"
    by simp
  from one [THEN conjunct2, THEN conjunct2, THEN conjunct2, THEN conjunct1] low flag p1 cand ins
  have e1: "ExtractAll_body stdlib ?c ''192.168.1.1'' [] ''ipv4'' (\<lambda>k. False, Map.empty) (0, 11) =
      (\<lambda>k. False, Map.empty)"
    by simp
  from one [THEN conjunct2, THEN conjunct2, THEN conjunct2, THEN conjunct2] flag parse cls
  have rest: "GetMatches stdlib ?c ''192.168.1.1'' ''ipv4'' ipv4_re = [] \<and>
      GetMatches stdlib ?c ''8.8.8.8'' ''ipv4'' ipv4_re = [\<lparr>Value = ''8.8.8.8'', Type = ''ipv4''\<rparr>]"
    by blast
  from p1 parse(3) p2 g1 g2 e1 rest show ?thesis
    by blast
qed

section \<open>De-duplication\<close>

lemma first_by_key_index:
  "first_by_key S key xs =
     map ((!) xs)
       (filter (\<lambda>i. key (xs ! i) \<notin> S \<and> (\<forall>j<i. key (xs ! j) \<noteq> key (xs ! i))) [0..<length xs])"
proof -
  have "list_all (\<lambda>j. key (xs ! j) \<noteq> key (xs ! i)) [0..<i] \<longleftrightarrow>
      (\<forall>j<i. key (xs ! j) \<noteq> key (xs ! i))" for i
    by (auto simp: list_all_iff)
  then show ?thesis
    by (simp add: first_by_key_def)
qed

lemma GetMatches_value_key: "ToLower (GetMatches_value kind v) = ToLower v"
  by (simp add: GetMatches_value_def)

lemma GetMatches_primaries_distinct:
  "distinct (map (\<lambda>m. ToLower (Value m)) (filter (\<lambda>m. Type m = kind) (GetMatches X c text kind regex)))"
  unfolding GetMatches_primaries
  by (simp add: o_def first_by_key_distinct GetMatches_value_key)

lemma url_matches_distinct: "distinct (map (\<lambda>m. ToLower (Value m)) (url_matches X c text))"
proof (cases "Expressions c ''url''")
  case None
  then show ?thesis by (simp add: url_matches_def url_ranges_def)
next
  case (Some regex)
  then show ?thesis
    using first_by_key_distinct [of "\<lambda>idx. ToLower (ExtractAll_url_candidate text idx)" "{}"]
    by (simp add: url_matches_def url_ranges_def o_def)
qed

lemma ExtractAll_distinct:
  assumes "distinct order" "k \<noteq> ''base_domain''" "ExtractAll X c text order k = Some ms"
  shows "distinct (map (\<lambda>m. ToLower (Value m)) ms)"
proof (cases "k = ''url''")
  case True
  with assms(3) have "ms = url_matches X c text"
    by (simp add: ExtractAll_at_url some_list_def split: if_splits)
  then show ?thesis by (simp add: url_matches_distinct)
next
  case False
  from assms(3) have "ExtractAll X c text order k \<noteq> None" by simp
  then obtain regex where re: "Expressions c k = Some regex"
    unfolding ExtractAll_at_kind [OF assms(1) False assms(2)]
    by (cases "Expressions c k") (auto split: if_splits)
  with assms(3) have "ms = map (\<lambda>v. \<lparr>Value = v, Type = k\<rparr>)
      (kind_retained X c text (url_ranges X c text) k regex)"
    unfolding ExtractAll_at_kind [OF assms(1) False assms(2)]
    by (simp add: some_list_def split: if_splits)
  then show ?thesis
    by (simp add: o_def kind_retained_def first_by_key_distinct)
qed

lemma GetMatches_first_then_filter:
  assumes "kind \<noteq> ''ipv4'' \<or> (\<forall>v \<in> set (FindAllString regex text). ToLower v = v)"
  shows "filter (\<lambda>m. Type m = kind) (GetMatches X c text kind regex) =
     map (\<lambda>v. \<lparr>Value = GetMatches_value kind v, Type = kind\<rparr>)
       (filter (GetMatches_kept X c kind)
          (first_by_key {} ToLower
             (map (GetMatches_candidate kind) (FindAllString regex text))))"
proof -
  let ?xs = "map (GetMatches_candidate kind) (FindAllString regex text)"
  from assms have st: "kind \<noteq> ''ipv4'' \<or> (\<forall>v \<in> set ?xs. ToLower v = v)"
    by (auto simp: GetMatches_candidate_def)
  have "first_by_key {} ToLower (filter (GetMatches_kept X c kind) ?xs) =
      filter (GetMatches_kept X c kind) (first_by_key {} ToLower ?xs)"
    by (intro first_by_key_filter GetMatches_kept_stable [OF st])
  then show ?thesis
    by (simp only: GetMatches_primaries)
qed

lemma kind_retained_first_then_filter:
  assumes "k \<noteq> ''ipv4'' \<or>
     (\<forall>idx \<in> set (FindAllStringIndex regex text).
        ToLower (ExtractAll_candidate text idx) = ExtractAll_candidate text idx)"
  shows "kind_retained X c text ur k regex =
     filter (ExtractAll_kept X c k)
       (first_by_key {} ToLower
          (map (ExtractAll_candidate text)
             (filter (\<lambda>idx. \<not> isInsideUrl ur idx) (FindAllStringIndex regex text))))"
proof -
  let ?xs = "map (ExtractAll_candidate text)
      (filter (\<lambda>idx. \<not> isInsideUrl ur idx) (FindAllStringIndex regex text))"
  from assms have st: "k \<noteq> ''ipv4'' \<or> (\<forall>v \<in> set ?xs. ToLower v = v)"
    by auto
  show ?thesis
    unfolding kind_retained_def
    by (intro first_by_key_filter ExtractAll_kept_stable [OF st])
qed

lemma url_ranges_first_then_filter:
  assumes "Expressions c ''url'' = Some regex"
  shows "url_ranges X c text =
     filter (\<lambda>idx. \<not> url_ignored X c (ExtractAll_url_candidate text idx))
       (first_by_key {} (\<lambda>idx. ToLower (ExtractAll_url_candidate text idx))
          (FindAllStringIndex regex text))"
proof -
  have "first_by_key {} (\<lambda>idx. ToLower (ExtractAll_url_candidate text idx))
          (filter (\<lambda>idx. \<not> url_ignored X c (ExtractAll_url_candidate text idx))
             (FindAllStringIndex regex text)) =
        filter (\<lambda>idx. \<not> url_ignored X c (ExtractAll_url_candidate text idx))
          (first_by_key {} (\<lambda>idx. ToLower (ExtractAll_url_candidate text idx))
             (FindAllStringIndex regex text))"
  proof (intro first_by_key_filter)
    fix x y :: "nat \<times> nat"
    assume "ToLower (ExtractAll_url_candidate text x) = ToLower (ExtractAll_url_candidate text y)"
    from url_ignored_fold [OF this]
    show "(\<not> url_ignored X c (ExtractAll_url_candidate text x)) =
        (\<not> url_ignored X c (ExtractAll_url_candidate text y))"
      by simp
  qed
  with assms show ?thesis
    by (simp add: url_ranges_def)
qed

lemma url_later_matches:
  "FindAllStringIndex url_re ''http://a.com/ http://A.com'' = [(0, 13), (14, 26)]"
  by code_simp

lemma domain_later_matches:
  "FindAllStringIndex domain_re ''http://a.com/ http://A.com'' = [(7, 12), (21, 26)]"
  by code_simp

lemma url_ranges_later:
  "url_ranges X (NewContextualizer a [] d) ''http://a.com/ http://A.com'' = [(0, 13)]"
proof -
  let ?t = "''http://a.com/ http://A.com''"
  have cand: "ToLower (ExtractAll_url_candidate ?t (0, 13)) = ''http://a.com''"
      "ToLower (ExtractAll_url_candidate ?t (14, 26)) = ''http://a.com''"
    by (simp_all add: ExtractAll_url_candidate_def string_simps)
  have re: "Expressions (NewContextualizer a [] d) ''url'' = Some url_re"
    by (simp add: NewContextualizer_def)
  show ?thesis
    by (simp add: url_ranges_def re url_later_matches url_ignored_no_domains cand first_by_key_Cons)
qed

lemma ExtractAll_later_domain:
  assumes "iteration_order (NewContextualizer a [] d) order"
  shows "ExtractAll X (NewContextualizer a [] d) ''http://a.com/ http://A.com'' order ''domain'' =
     Some [\<lparr>Value = ''A.com'', Type = ''domain''\<rparr>]"
proof -
  let ?c = "NewContextualizer a [] d"
  let ?t = "''http://a.com/ http://A.com''"
  from assms have ord: "distinct order" "''domain'' \<in> set order"
    by (simp_all add: iteration_order_def NewContextualizer_dom)
  have re: "Expressions ?c ''domain'' = Some domain_re"
    by (simp add: NewContextualizer_def)
  have "kind_retained X ?c ?t [(0, 13)] ''domain'' domain_re = [''A.com'']"
    by (simp add: kind_retained_def domain_later_matches isInsideUrl_def ExtractAll_candidate_def
        substring_def ExtractAll_kept_domain isDomainIgnored_no_domains first_by_key_Cons)
  then show ?thesis
    by (simp add: ExtractAll_at_kind ord re url_ranges_later some_list_def)
qed

text \<open>
  Claim C7. The results of \<^verbatim>\<open>GetMatches\<close> of the kind asked for are the values of the
  candidates that pass the filter of the kind, the first of each case-folded value, in
  the order of the text; no two of them have the same case-folded value. In
  \<^verbatim>\<open>ExtractAll\<close>, which runs the loop of each kind once, the results under a kind of the
  table are the candidates outside the URL ranges that pass the filter of the kind, the
  first of each case-folded value, and the results under \<^verbatim>\<open>url\<close> are the URLs that are
  not ignored, the first of each case-folded value; no two results under one kind have
  the same case-folded value. \<open>first_by_key\<close> is spelled out: an element is retained
  exactly when no element before it has its key.

  The filter of every kind but \<^verbatim>\<open>ipv4\<close> reads the case-folded value only (the filter
  of \<^verbatim>\<open>ipv4\<close> hands the candidate itself to the library), so for these kinds, and for
  \<^verbatim>\<open>ipv4\<close> when no candidate changes under case folding, the order of the two steps
  does not matter: in \<^verbatim>\<open>GetMatches\<close> the occurrence retained of a value is its first
  occurrence in the text, and the results are these first occurrences that pass the
  filter; in \<^verbatim>\<open>ExtractAll\<close> it is the first occurrence among the candidates that are
  not inside a URL range. An occurrence inside a URL range is dropped before the
  de-duplication sees it: in the text \<^verbatim>\<open>http://a.com/ http://A.com\<close> the second URL is
  a duplicate of the first and claims no range, the domain candidate \<^verbatim>\<open>a.com\<close> at
  \<open>(7, 12)\<close> is inside the range of the first URL, and the domain result of
  \<^verbatim>\<open>ExtractAll\<close> is the later occurrence \<^verbatim>\<open>A.com\<close> at \<open>(21, 26)\<close>, while
  \<^verbatim>\<open>GetMatches\<close> retains the first.
\<close>

theorem dedup_first_occurrence:
  "filter (\<lambda>m. Type m = kind) (GetMatches X c text kind regex) =
     map (\<lambda>v. \<lparr>Value = GetMatches_value kind v, Type = kind\<rparr>)
       (first_by_key {} ToLower
          (filter (GetMatches_kept X c kind)
             (map (GetMatches_candidate kind) (FindAllString regex text)))) \<and>
   distinct (map (\<lambda>m. ToLower (Value m))
     (filter (\<lambda>m. Type m = kind) (GetMatches X c text kind regex))) \<and>
   (distinct order \<and> k \<in> set order \<and> k \<noteq> ''url'' \<and> k \<noteq> ''base_domain'' \<and>
    Expressions c k = Some regex \<longrightarrow>
      ExtractAll X c text order k =
        some_list (map (\<lambda>v. \<lparr>Value = v, Type = k\<rparr>)
          (first_by_key {} ToLower
             (filter (ExtractAll_kept X c k)
                (map (ExtractAll_candidate text)
                   (filter (\<lambda>idx. \<not> isInsideUrl (url_ranges X c text) idx)
                      (FindAllStringIndex regex text))))))) \<and>
   (Expressions c ''url'' = Some regex \<longrightarrow>
      ExtractAll X c text order ''url'' =
        some_list (map (\<lambda>idx. \<lparr>Value = ExtractAll_url_candidate text idx, Type = ''url''\<rparr>)
          (first_by_key {} (\<lambda>idx. ToLower (ExtractAll_url_candidate text idx))
             (filter (\<lambda>idx. \<not> url_ignored X c (ExtractAll_url_candidate text idx))
                (FindAllStringIndex regex text))))) \<and>
   (distinct order \<and> k \<noteq> ''base_domain'' \<and> ExtractAll X c text order k = Some ms \<longrightarrow>
      distinct (map (\<lambda>m. ToLower (Value m)) ms)) \<and>
   first_by_key S key xs =
     map ((!) xs)
       (filter (\<lambda>i. key (xs ! i) \<notin> S \<and> (\<forall>j<i. key (xs ! j) \<noteq> key (xs ! i))) [0..<length xs]) \<and>
   (kind \<noteq> ''ipv4'' \<or> (\<forall>v \<in> set (FindAllString regex text). ToLower v = v) \<longrightarrow>
      filter (\<lambda>m. Type m = kind) (GetMatches X c text kind regex) =
        map (\<lambda>v. \<lparr>Value = GetMatches_value kind v, Type = kind\<rparr>)
          (filter (GetMatches_kept X c kind)
             (first_by_key {} ToLower
                (map (GetMatches_candidate kind) (FindAllString regex text))))) \<and>
   (distinct order \<and> k \<in> set order \<and> k \<noteq> ''url'' \<and> k \<noteq> ''base_domain'' \<and>
    Expressions c k = Some regex \<and>
    (k \<noteq> ''ipv4'' \<or>
     (\<forall>idx \<in> set (FindAllStringIndex regex text).
        ToLower (ExtractAll_candidate text idx) = ExtractAll_candidate text idx)) \<longrightarrow>
      ExtractAll X c text order k =
        some_list (map (\<lambda>v. \<lparr>Value = v, Type = k\<rparr>)
          (filter (ExtractAll_kept X c k)
             (first_by_key {} ToLower
                (map (ExtractAll_candidate text)
                   (filter (\<lambda>idx. \<not> isInsideUrl (url_ranges X c text) idx)
                      (FindAllStringIndex regex text))))))) \<and>
   (Expressions c ''url'' = Some regex \<longrightarrow>
      ExtractAll X c text order ''url'' =
        some_list (map (\<lambda>idx. \<lparr>Value = ExtractAll_url_candidate text idx, Type = ''url''\<rparr>)
          (filter (\<lambda>idx. \<not> url_ignored X c (ExtractAll_url_candidate text idx))
             (first_by_key {} (\<lambda>idx. ToLower (ExtractAll_url_candidate text idx))
                (FindAllStringIndex regex text))))) \<and>
   (iteration_order (NewContextualizer a [] d) order \<longrightarrow>
      FindAllStringIndex url_re ''http://a.com/ http://A.com'' = [(0, 13), (14, 26)] \<and>
      fst (ExtractAll_urls X (NewContextualizer a [] d) ''http://a.com/ http://A.com'') = [(0, 13)] \<and>
      FindAllStringIndex domain_re ''http://a.com/ http://A.com'' = [(7, 12), (21, 26)] \<and>
      isInsideUrl [(0, 13)] (7, 12) \<and> \<not> isInsideUrl [(0, 13)] (21, 26) \<and>
      ExtractAll X (NewContextualizer a [] d) ''http://a.com/ http://A.com'' order ''url'' =
        Some [\<lparr>Value = ''http://a.com'', Type = ''url''\<rparr>] \<and>
      ExtractAll X (NewContextualizer a [] d) ''http://a.com/ http://A.com'' order ''domain'' =
        Some [\<lparr>Value = ''A.com'', Type = ''domain''\<rparr>] \<and>
      filter (\<lambda>m. Type m = ''domain'')
        (GetMatches X (NewContextualizer a [] d) ''http://a.com/ http://A.com'' ''domain'' domain_re) =
        [\<lparr>Value = ''a.com'', Type = ''domain''\<rparr>])"
proof (intro conjI impI)
  show "filter (\<lambda>m. Type m = kind) (GetMatches X c text kind regex) =
     map (\<lambda>v. \<lparr>Value = GetMatches_value kind v, Type = kind\<rparr>)
       (first_by_key {} ToLower
          (filter (GetMatches_kept X c kind)
             (map (GetMatches_candidate kind) (FindAllString regex text))))"
    by (rule GetMatches_primaries)
next
  show "distinct (map (\<lambda>m. ToLower (Value m))
     (filter (\<lambda>m. Type m = kind) (GetMatches X c text kind regex)))"
    by (rule GetMatches_primaries_distinct)
next
  assume "distinct order \<and> k \<in> set order \<and> k \<noteq> ''url'' \<and> k \<noteq> ''base_domain'' \<and>
    Expressions c k = Some regex"
  then show "ExtractAll X c text order k =
        some_list (map (\<lambda>v. \<lparr>Value = v, Type = k\<rparr>)
          (first_by_key {} ToLower
             (filter (ExtractAll_kept X c k)
                (map (ExtractAll_candidate text)
                   (filter (\<lambda>idx. \<not> isInsideUrl (url_ranges X c text) idx)
                      (FindAllStringIndex regex text))))))"
    by (simp add: ExtractAll_at_kind kind_retained_def)
next
  assume "Expressions c ''url'' = Some regex"
  then show "ExtractAll X c text order ''url'' =
        some_list (map (\<lambda>idx. \<lparr>Value = ExtractAll_url_candidate text idx, Type = ''url''\<rparr>)
          (first_by_key {} (\<lambda>idx. ToLower (ExtractAll_url_candidate text idx))
             (filter (\<lambda>idx. \<not> url_ignored X c (ExtractAll_url_candidate text idx))
                (FindAllStringIndex regex text))))"
    by (simp add: ExtractAll_at_url url_matches_def url_ranges_def)
next
  assume "distinct order \<and> k \<noteq> ''base_domain'' \<and> ExtractAll X c text order k = Some ms"
  then show "distinct (map (\<lambda>m. ToLower (Value m)) ms)"
    using ExtractAll_distinct [of order k X c "text" ms] by simp
next
  show "first_by_key S key xs =
     map ((!) xs)
       (filter (\<lambda>i. key (xs ! i) \<notin> S \<and> (\<forall>j<i. key (xs ! j) \<noteq> key (xs ! i))) [0..<length xs])"
    by (rule first_by_key_index)
next
  assume "kind \<noteq> ''ipv4'' \<or> (\<forall>v \<in> set (FindAllString regex text). ToLower v = v)"
  then show "filter (\<lambda>m. Type m = kind) (GetMatches X c text kind regex) =
        map (\<lambda>v. \<lparr>Value = GetMatches_value kind v, Type = kind\<rparr>)
          (filter (GetMatches_kept X c kind)
             (first_by_key {} ToLower
                (map (GetMatches_candidate kind) (FindAllString regex text))))"
    by (rule GetMatches_first_then_filter)
next
  assume a: "distinct order \<and> k \<in> set order \<and> k \<noteq> ''url'' \<and> k \<noteq> ''base_domain'' \<and>
    Expressions c k = Some regex \<and>
    (k \<noteq> ''ipv4'' \<or>
     (\<forall>idx \<in> set (FindAllStringIndex regex text).
        ToLower (ExtractAll_candidate text idx) = ExtractAll_candidate text idx))"
  then have "kind_retained X c text (url_ranges X c text) k regex =
      filter (ExtractAll_kept X c k)
        (first_by_key {} ToLower
           (map (ExtractAll_candidate text)
              (filter (\<lambda>idx. \<not> isInsideUrl (url_ranges X c text) idx)
                 (FindAllStringIndex regex text))))"
    by (intro kind_retained_first_then_filter) simp
  with a show "ExtractAll X c text order k =
        some_list (map (\<lambda>v. \<lparr>Value = v, Type = k\<rparr>)
          (filter (ExtractAll_kept X c k)
             (first_by_key {} ToLower
                (map (ExtractAll_candidate text)
                   (filter (\<lambda>idx. \<not> isInsideUrl (url_ranges X c text) idx)
                      (FindAllStringIndex regex text))))))"
    by (simp add: ExtractAll_at_kind)
next
  assume "Expressions c ''url'' = Some regex"
  from url_ranges_first_then_filter [OF this, of X "text"]
  show "ExtractAll X c text order ''url'' =
        some_list (map (\<lambda>idx. \<lparr>Value = ExtractAll_url_candidate text idx, Type = ''url''\<rparr>)
          (filter (\<lambda>idx. \<not> url_ignored X c (ExtractAll_url_candidate text idx))
             (first_by_key {} (\<lambda>idx. ToLower (ExtractAll_url_candidate text idx))
                (FindAllStringIndex regex text))))"
    by (simp add: ExtractAll_at_url url_matches_def)
next
  show "FindAllStringIndex url_re ''http://a.com/ http://A.com'' = [(0, 13), (14, 26)]"
    by (rule url_later_matches)
  show "FindAllStringIndex domain_re ''http://a.com/ http://A.com'' = [(7, 12), (21, 26)]"
    by (rule domain_later_matches)
  show "isInsideUrl [(0, 13)] (7, 12)" "\<not> isInsideUrl [(0, 13)] (21, 26)"
    by (simp_all add: isInsideUrl_def)
next
  let ?c = "NewContextualizer a [] d"
  let ?t = "''http://a.com/ http://A.com''"
  show "fst (ExtractAll_urls X ?c ?t) = [(0, 13)]"
    by (simp add: ExtractAll_urls_eq url_ranges_later)
  show "ExtractAll X ?c ?t order ''url'' = Some [\<lparr>Value = ''http://a.com'', Type = ''url''\<rparr>]"
    by (simp add: ExtractAll_at_url url_matches_def url_ranges_later ExtractAll_url_candidate_def
        string_simps some_list_def)
  have fas: "FindAllString domain_re ?t = [''a.com'', ''A.com'']"
    by (simp add: FindAllString_def domain_later_matches substring_def)
  have low: "ToLower ''a.com'' = ''a.com''" "ToLower ''A.com'' = ''a.com''"
    by (simp_all add: string_simps)
  show "filter (\<lambda>m. Type m = ''domain'') (GetMatches X ?c ?t ''domain'' domain_re) =
      [\<lparr>Value = ''a.com'', Type = ''domain''\<rparr>]"
    by (simp add: GetMatches_primaries fas GetMatches_candidate_def GetMatches_kept_domain
        isDomainIgnored_no_domains first_by_key_Cons low GetMatches_value_def)
next
  assume "iteration_order (NewContextualizer a [] d) order"
  then show "ExtractAll X (NewContextualizer a [] d) ''http://a.com/ http://A.com'' order ''domain'' =
      Some [\<lparr>Value = ''A.com'', Type = ''domain''\<rparr>]"
    by (rule ExtractAll_later_domain)
qed

lemma filepath_dup_matches:
  "FindAllStringIndex filepath_re ''Foo/bar foo/BAR'' = [(0, 7), (8, 15)]"
  by code_simp

lemma url_dup_matches: "FindAllStringIndex url_re ''Foo/bar foo/BAR'' = []"
  by code_simp

text \<open>
  The theorem at the text \<^verbatim>\<open>Foo/bar foo/BAR\<close>: of the two file paths with one
  case-folded value, both paths keep the first. At the text
  \<^verbatim>\<open>http://a.com/ http://A.com\<close> \<^verbatim>\<open>GetMatches\<close> keeps the first of the two domains
  and \<^verbatim>\<open>ExtractAll\<close> the second, the first being inside the range of the URL.
\<close>

theorem dedup_first_occurrence_witness:
  "GetMatches stdlib (NewContextualizer False [] []) ''Foo/bar foo/BAR'' ''filepath'' filepath_re =
     [\<lparr>Value = ''Foo/bar'', Type = ''filepath''\<rparr>] \<and>
   ExtractAll stdlib (NewContextualizer False [] []) ''Foo/bar foo/BAR'' table_order ''filepath'' =
     Some [\<lparr>Value = ''Foo/bar'', Type = ''filepath''\<rparr>] \<and>
   distinct (map (\<lambda>m. ToLower (Value m)) [\<lparr>Value = ''Foo/bar'', Type = ''filepath''\<rparr>]) \<and>
   first_by_key {} ToLower [''Foo/bar'', ''foo/BAR''] = [''Foo/bar''] \<and>
   ExtractAll stdlib (NewContextualizer False [] []) ''http://a.com/ http://A.com'' table_order ''url'' =
     Some [\<lparr>Value = ''http://a.com'', Type = ''url''\<rparr>] \<and>
   ExtractAll stdlib (NewContextualizer False [] []) ''http://a.com/ http://A.com'' table_order ''domain'' =
     Some [\<lparr>Value = ''A.com'', Type = ''domain''\<rparr>] \<and>
   filter (\<lambda>m. Type m = ''domain'')
     (GetMatches stdlib (NewContextualizer False [] []) ''http://a.com/ http://A.com'' ''domain'' domain_re) =
     [\<lparr>Value = ''a.com'', Type = ''domain''\<rparr>]"
proof -
  let ?c = "NewContextualizer False [] []"
  let ?t = "''Foo/bar foo/BAR''"
  have fas: "FindAllString filepath_re ?t = [''Foo/bar'', ''foo/BAR'']"
    by (simp add: FindAllString_def filepath_dup_matches substring_def)
  have low: "ToLower ''Foo/bar'' = ''foo/bar''" "ToLower ''foo/BAR'' = ''foo/bar''"
    by (simp_all add: string_simps)
  have kept: "GetMatches_kept stdlib ?c ''filepath'' ''Foo/bar''"
      "GetMatches_kept stdlib ?c ''filepath'' ''foo/BAR''"
      "ExtractAll_kept stdlib ?c ''filepath'' ''Foo/bar''"
      "ExtractAll_kept stdlib ?c ''filepath'' ''foo/BAR''"
    by (simp_all add: GetMatches_kept_filepath ExtractAll_kept_filepath low HasPrefix_def)
  have re: "Expressions ?c ''filepath'' = Some filepath_re" "Expressions ?c ''url'' = Some url_re"
    by (simp_all add: NewContextualizer_def)
  have ur: "url_ranges stdlib ?c ?t = []"
    by (simp add: url_ranges_def re url_dup_matches)
  have ord: "distinct table_order" "''filepath'' \<in> set table_order"
    by (simp_all add: table_order_def)
  note inst = dedup_first_occurrence [of "''filepath''" stdlib ?c ?t filepath_re table_order
      "''filepath''" "[\<lparr>Value = ''Foo/bar'', Type = ''filepath''\<rparr>]" "{}" ToLower
      "[''Foo/bar'', ''foo/BAR'']" False "[]"]
  note rest = inst [THEN conjunct2, THEN conjunct2, THEN conjunct2, THEN conjunct2, THEN conjunct2]
  have fbk: "first_by_key {} ToLower [''Foo/bar'', ''foo/BAR''] = [''Foo/bar'']"
    unfolding rest [THEN conjunct1]
    by (simp add: low upt_rec [of 0 2] upt_rec [of 1 2] upt_rec [of 2 2])
  from inst [THEN conjunct1] fas kept fbk
  have "filter (\<lambda>m. Type m = ''filepath'') (GetMatches stdlib ?c ?t ''filepath'' filepath_re) =
      [\<lparr>Value = ''Foo/bar'', Type = ''filepath''\<rparr>]"
    by (simp add: GetMatches_candidate_def GetMatches_value_def)
  then have gm: "GetMatches stdlib ?c ?t ''filepath'' filepath_re = [\<lparr>Value = ''Foo/bar'', Type = ''filepath''\<rparr>]"
    by (simp add: GetMatches_no_bases)
  from rest [THEN conjunct2, THEN conjunct1] fas kept fbk
  have gm': "filter (\<lambda>m. Type m = ''filepath'') (GetMatches stdlib ?c ?t ''filepath'' filepath_re) =
      [\<lparr>Value = ''Foo/bar'', Type = ''filepath''\<rparr>]"
    by (simp add: GetMatches_candidate_def GetMatches_value_def)
  from inst [THEN conjunct2, THEN conjunct2, THEN conjunct1] ord re(1) ur kept fbk
  have ea: "ExtractAll stdlib ?c ?t table_order ''filepath'' =
      Some [\<lparr>Value = ''Foo/bar'', Type = ''filepath''\<rparr>]"
    by (simp add: filepath_dup_matches isInsideUrl_def ExtractAll_candidate_def substring_def
        some_list_def)
  from rest [THEN conjunct2, THEN conjunct2, THEN conjunct1] ord re(1) ur kept fbk
  have ea': "ExtractAll stdlib ?c ?t table_order ''filepath'' =
      Some [\<lparr>Value = ''Foo/bar'', Type = ''filepath''\<rparr>]"
    by (simp add: filepath_dup_matches isInsideUrl_def ExtractAll_candidate_def substring_def
        some_list_def)
  from inst [THEN conjunct2, THEN conjunct2, THEN conjunct2, THEN conjunct2, THEN conjunct1] ord(1) ea
  have di: "distinct (map (\<lambda>m. ToLower (Value m)) [\<lparr>Value = ''Foo/bar'', Type = ''filepath''\<rparr>])"
    by simp
  from rest [THEN conjunct2, THEN conjunct2, THEN conjunct2, THEN conjunct2]
    table_order_iteration [of False "[]" "[]"]
  have later: "ExtractAll stdlib ?c ''http://a.com/ http://A.com'' table_order ''url'' =
        Some [\<lparr>Value = ''http://a.com'', Type = ''url''\<rparr>] \<and>
      ExtractAll stdlib ?c ''http://a.com/ http://A.com'' table_order ''domain'' =
        Some [\<lparr>Value = ''A.com'', Type = ''domain''\<rparr>] \<and>
      filter (\<lambda>m. Type m = ''domain'')
        (GetMatches stdlib ?c ''http://a.com/ http://A.com'' ''domain'' domain_re) =
        [\<lparr>Value = ''a.com'', Type = ''domain''\<rparr>]"
    by blast
  have ucand: "ExtractAll_url_candidate ''http://a.com/ http://A.com'' (0, 13) = ''http://a.com''"
      "ExtractAll_url_candidate ''http://a.com/ http://A.com'' (14, 26) = ''http://A.com''"
      "ToLower ''http://a.com'' = ''http://a.com''" "ToLower ''http://A.com'' = ''http://a.com''"
    by (simp_all add: ExtractAll_url_candidate_def string_simps)
  note urls = dedup_first_occurrence [of "''url''" stdlib ?c "''http://a.com/ http://A.com''" url_re
      table_order "''url''" "[\<lparr>Value = ''http://a.com'', Type = ''url''\<rparr>]" "{}" ToLower "[]"
      False "[]"]
  from urls [THEN conjunct2, THEN conjunct2, THEN conjunct2, THEN conjunct1] re(2)
  have u4: "ExtractAll stdlib ?c ''http://a.com/ http://A.com'' table_order ''url'' =
      Some [\<lparr>Value = ''http://a.com'', Type = ''url''\<rparr>]"
    by (simp add: url_later_matches url_ignored_no_domains ucand first_by_key_Cons some_list_def)
  from urls [THEN conjunct2, THEN conjunct2, THEN conjunct2, THEN conjunct2, THEN conjunct2,
      THEN conjunct2, THEN conjunct2, THEN conjunct2, THEN conjunct1] re(2)
  have u9: "ExtractAll stdlib ?c ''http://a.com/ http://A.com'' table_order ''url'' =
      Some [\<lparr>Value = ''http://a.com'', Type = ''url''\<rparr>]"
    by (simp add: url_later_matches url_ignored_no_domains ucand first_by_key_Cons some_list_def)
  from urls [THEN conjunct2, THEN conjunct2, THEN conjunct2, THEN conjunct2, THEN conjunct1] ord(1) u4
  have udi: "distinct (map (\<lambda>m. ToLower (Value m)) [\<lparr>Value = ''http://a.com'', Type = ''url''\<rparr>])"
    by simp
  from gm gm' ea ea' di fbk later u4 u9 udi show ?thesis
    by blast
qed

text \<open>
  Claim C7 as stated says that the occurrence retained is the first one in the order of
  the text, for every text. In \<^verbatim>\<open>http://a.com/ http://A.com\<close> the pattern
  \<^verbatim>\<open>domain\<close> finds \<^verbatim>\<open>a.com\<close> at \<open>(7, 12)\<close> and then \<^verbatim>\<open>A.com\<close> at \<open>(21, 26)\<close>,
  two occurrences with one case-folded value, and the domain result of \<^verbatim>\<open>ExtractAll\<close>
  is the second.
\<close>

theorem ExtractAll_retains_later_occurrence_counterexample:
  "FindAllStringIndex domain_re ''http://a.com/ http://A.com'' = [(7, 12), (21, 26)] \<and>
   substring ''http://a.com/ http://A.com'' 7 12 = ''a.com'' \<and>
   substring ''http://a.com/ http://A.com'' 21 26 = ''A.com'' \<and>
   ToLower ''a.com'' = ToLower ''A.com'' \<and>
   ExtractAll stdlib (NewContextualizer False [] []) ''http://a.com/ http://A.com'' table_order
     ''domain'' = Some [\<lparr>Value = ''A.com'', Type = ''domain''\<rparr>]"
proof -
  have "ExtractAll stdlib (NewContextualizer False [] []) ''http://a.com/ http://A.com'' table_order
     ''domain'' = Some [\<lparr>Value = ''A.com'', Type = ''domain''\<rparr>]"
    by (rule ExtractAll_later_domain [OF table_order_iteration])
  then show ?thesis
    by (simp add: domain_later_matches string_simps)
qed

section \<open>Extraction leaves the extractor as it is\<close>

lemma isDomainIgnored_Checks:
  "Checks c' = Checks c \<Longrightarrow> isDomainIgnored c' = isDomainIgnored c"
  by (simp add: fun_eq_iff isDomainIgnored_iff)

lemma GetMatches_Checks:
  assumes "Checks c' = Checks c"
  shows "GetMatches X c' text kind regex = GetMatches X c text kind regex"
proof -
  note ig = isDomainIgnored_Checks [OF assms]
  have sw: "GetMatches_switch X c' = GetMatches_switch X c"
    by (intro ext) (unfold GetMatches_switch_def ig assms, rule refl)
  have "GetMatches_body X c' = GetMatches_body X c"
    by (intro ext) (unfold GetMatches_body_def sw, rule refl)
  then show ?thesis
    by (simp add: GetMatches_def)
qed

lemma ExtractAll_Checks_Expressions:
  assumes "Checks c' = Checks c" "Expressions c' = Expressions c"
  shows "ExtractAll X c' text order = ExtractAll X c text order"
proof -
  note ig = isDomainIgnored_Checks [OF assms(1)]
  have sw: "ExtractAll_switch X c' = ExtractAll_switch X c"
    by (intro ext) (unfold ExtractAll_switch_def ig assms(1), rule refl)
  have body: "ExtractAll_body X c' = ExtractAll_body X c"
    by (intro ext) (unfold ExtractAll_body_def sw, rule refl)
  have kind: "ExtractAll_kind X c' = ExtractAll_kind X c"
    by (intro ext) (unfold ExtractAll_kind_def body assms(2), rule refl)
  have ub: "ExtractAll_url_body X c' = ExtractAll_url_body X c"
    by (intro ext) (unfold ExtractAll_url_body_def ig, rule refl)
  have "ExtractAll_urls X c' = ExtractAll_urls X c"
    by (intro ext) (unfold ExtractAll_urls_def ub assms(2), rule refl)
  with kind show ?thesis
    by (simp add: ExtractAll_def)
qed

lemma ExtractAll_order_independent:
  assumes "iteration_order c order" "iteration_order c order'"
    and "Expressions c ''base_domain'' = None"
  shows "ExtractAll X c text order = ExtractAll X c text order'"
proof (rule ext)
  fix k
  let ?km = "kind_matches X c text (url_ranges X c text)"
  let ?f = "\<lambda>kind. filter (\<lambda>m. Type m = k) (?km kind)"
  let ?k0 = "if k = ''base_domain'' then ''domain'' else k"
  from assms(1,2) have d: "distinct order" "distinct order'" and s: "set order = set order'"
    by (simp_all add: iteration_order_def)
  have other: "?f kind = []" if "kind \<noteq> ?k0" for kind
  proof (cases "kind = ''base_domain''")
    case True
    with assms(3) show ?thesis by (simp add: kind_matches_def)
  next
    case False
    with that show ?thesis
      by (intro filter_kind_matches_other) (auto split: if_splits)
  qed
  have "filter (\<lambda>m. Type m = k) (concat (map ?km o')) = (if ?k0 \<in> set o' then ?f ?k0 else [])"
    if "distinct o'" for o'
  proof -
    have "filter (\<lambda>m. Type m = k) (concat (map ?km o')) = concat (map ?f o')"
      by (simp add: filter_concat o_def)
    also have "\<dots> = (if ?k0 \<in> set o' then ?f ?k0 else [])"
      using that other by (intro concat_map_single) auto
    finally show ?thesis .
  qed
  from this [OF d(1)] this [OF d(2)] s
  have "filter (\<lambda>m. Type m = k) (concat (map ?km order)) =
      filter (\<lambda>m. Type m = k) (concat (map ?km order'))"
    by simp
  then show "ExtractAll X c text order k = ExtractAll X c text order' k"
    by (simp add: ExtractAll_at)
qed

text \<open>
  Claim C8. The receiver after a call of \<^verbatim>\<open>GetMatches\<close> or \<^verbatim>\<open>ExtractAll\<close> is the
  receiver before it, with its pattern table and its filter configuration. A second
  call on the same text returns what the first returned; for \<^verbatim>\<open>ExtractAll\<close> this
  holds whatever the two orders in which the runs visit the keys of the table, for a
  table without a kind named \<^verbatim>\<open>base_domain\<close>, and so for every extractor that
  \<^verbatim>\<open>NewContextualizer\<close> builds. The result of \<^verbatim>\<open>GetMatches\<close> depends on the receiver
  only through the filter configuration, the result of \<^verbatim>\<open>ExtractAll\<close> only through
  the filter configuration and the pattern table.
\<close>

theorem extraction_is_pure:
  "snd (GetMatches_call X text kind regex c) = c \<and>
   snd (ExtractAll_call X text order c) = c \<and>
   fst (GetMatches_call X text kind regex (snd (GetMatches_call X text kind regex c))) =
     fst (GetMatches_call X text kind regex c) \<and>
   (iteration_order c order \<and> iteration_order c order' \<and> Expressions c ''base_domain'' = None \<longrightarrow>
      fst (ExtractAll_call X text order' (snd (ExtractAll_call X text order c))) =
        fst (ExtractAll_call X text order c)) \<and>
   (iteration_order (NewContextualizer a b d) order \<and>
    iteration_order (NewContextualizer a b d) order' \<longrightarrow>
      fst (ExtractAll_call X text order'
             (snd (ExtractAll_call X text order (NewContextualizer a b d)))) =
        fst (ExtractAll_call X text order (NewContextualizer a b d))) \<and>
   (Checks c' = Checks c \<longrightarrow>
      fst (GetMatches_call X text kind regex c') = fst (GetMatches_call X text kind regex c)) \<and>
   (Checks c' = Checks c \<and> Expressions c' = Expressions c \<longrightarrow>
      fst (ExtractAll_call X text order c') = fst (ExtractAll_call X text order c))"
proof (intro conjI impI)
  show "snd (GetMatches_call X text kind regex c) = c"
    by (simp add: GetMatches_call_def)
  show "snd (ExtractAll_call X text order c) = c"
    by (simp add: ExtractAll_call_def)
  show "fst (GetMatches_call X text kind regex (snd (GetMatches_call X text kind regex c))) =
     fst (GetMatches_call X text kind regex c)"
    by (simp add: GetMatches_call_def)
next
  assume "iteration_order c order \<and> iteration_order c order' \<and> Expressions c ''base_domain'' = None"
  then have "ExtractAll X c text order' = ExtractAll X c text order"
    by (intro ExtractAll_order_independent) simp_all
  then show "fst (ExtractAll_call X text order' (snd (ExtractAll_call X text order c))) =
        fst (ExtractAll_call X text order c)"
    by (simp add: ExtractAll_call_def)
next
  assume "iteration_order (NewContextualizer a b d) order \<and>
    iteration_order (NewContextualizer a b d) order'"
  moreover have "Expressions (NewContextualizer a b d) ''base_domain'' = None"
    by (simp add: NewContextualizer_def)
  ultimately have "ExtractAll X (NewContextualizer a b d) text order' =
      ExtractAll X (NewContextualizer a b d) text order"
    by (intro ExtractAll_order_independent) simp_all
  then show "fst (ExtractAll_call X text order'
             (snd (ExtractAll_call X text order (NewContextualizer a b d)))) =
        fst (ExtractAll_call X text order (NewContextualizer a b d))"
    by (simp add: ExtractAll_call_def)
next
  assume "Checks c' = Checks c"
  from GetMatches_Checks [OF this]
  show "fst (GetMatches_call X text kind regex c') = fst (GetMatches_call X text kind regex c)"
    by (simp add: GetMatches_call_def)
next
  assume "Checks c' = Checks c \<and> Expressions c' = Expressions c"
  then have "ExtractAll X c' text order = ExtractAll X c text order"
    by (intro ExtractAll_Checks_Expressions) simp_all
  then show "fst (ExtractAll_call X text order c') = fst (ExtractAll_call X text order c)"
    by (simp add: ExtractAll_call_def)
qed

text \<open>
  The theorem at the extractor of the repository's test: the table order and its
  reverse give one result, and so does an extractor that differs in its \<^verbatim>\<open>ID\<close>.
\<close>

theorem extraction_is_pure_witness:
  "snd (ExtractAll_call stdlib ''visit sub.test.org'' table_order
          (NewContextualizer False [''ignored.com''] [])) =
     NewContextualizer False [''ignored.com''] [] \<and>
   ExtractAll stdlib (NewContextualizer False [''ignored.com''] []) ''visit sub.test.org''
       (rev table_order) =
     ExtractAll stdlib (NewContextualizer False [''ignored.com''] []) ''visit sub.test.org''
       table_order \<and>
   ExtractAll stdlib ((NewContextualizer False [''ignored.com''] [])\<lparr>ID := ''other''\<rparr>)
       ''visit sub.test.org'' table_order =
     ExtractAll stdlib (NewContextualizer False [''ignored.com''] []) ''visit sub.test.org''
       table_order \<and>
   GetMatches stdlib ((NewContextualizer False [''ignored.com''] [])\<lparr>ID := ''other''\<rparr>)
       ''visit sub.test.org'' ''domain'' domain_re =
     GetMatches stdlib (NewContextualizer False [''ignored.com''] []) ''visit sub.test.org''
       ''domain'' domain_re"
proof -
  let ?c = "NewContextualizer False [''ignored.com''] []"
  have o1: "iteration_order ?c table_order"
    by (rule table_order_iteration)
  then have o2: "iteration_order ?c (rev table_order)"
    by (simp add: iteration_order_def)
  have nb: "Expressions ?c ''base_domain'' = None"
    by (simp add: NewContextualizer_def)
  from extraction_is_pure [of stdlib "''visit sub.test.org''" "''domain''" domain_re ?c table_order
      "rev table_order" False "[''ignored.com'']" "[]" "?c\<lparr>ID := ''other''\<rparr>"] o1 o2 nb
  show ?thesis
    by (simp add: ExtractAll_call_def GetMatches_call_def)
qed

section \<open>Base domains are not de-duplicated\<close>

lemma map_GetMatches_candidate:
  "kind \<noteq> ''url'' \<Longrightarrow> map (GetMatches_candidate kind) ms = ms"
  by (induction ms) (simp_all add: GetMatches_candidate_def)

lemma domain_pair_matches:
  "FindAllStringIndex domain_re ''a.test.org b.test.org'' = [(0, 10), (11, 21)]"
  by code_simp

lemma url_pair_matches: "FindAllStringIndex url_re ''a.test.org b.test.org'' = []"
  by code_simp

text \<open>
  Claim C9. For a pattern without empty matches, the result of \<^verbatim>\<open>GetMatches\<close> for the
  kind \<^verbatim>\<open>domain\<close> is, for each retained candidate in turn (not ignored, the first of
  its case-folded value), its base-domain result, if it has one, immediately followed by
  its domain match; whether a base-domain result is appended depends on the candidate and
  not on the base domains appended before. For the text \<^verbatim>\<open>a.test.org b.test.org\<close>,
  with no ignored domains and a lookup that gives \<^verbatim>\<open>test.org\<close> for both,
  \<^verbatim>\<open>test.org\<close> appears twice in the result of \<^verbatim>\<open>GetMatches\<close>, each time right before
  its domain match, and twice under \<^verbatim>\<open>base_domain\<close> in the result of \<^verbatim>\<open>ExtractAll\<close>.
\<close>

theorem base_domain_not_deduplicated:
  "([] \<notin> set (FindAllString regex text) \<longrightarrow>
      GetMatches X c text ''domain'' regex =
        concat (map (\<lambda>v. GetMatches_bases X c ''domain'' v @ [\<lparr>Value = ToLower v, Type = ''domain''\<rparr>])
          (first_by_key {} ToLower
             (filter (\<lambda>v. \<not> isDomainIgnored c (ToLower v)) (FindAllString regex text))))) \<and>
   GetMatches_bases X c ''domain'' v =
     (if isDomainIgnored c (ToLower v) then []
      else (case extractSecondLevelDomain X (ToLower v) of
              None \<Rightarrow> []
            | Some b \<Rightarrow>
                if b \<noteq> [] \<and> b \<noteq> ToLower v \<and> \<not> isDomainIgnored c b
                then [\<lparr>Value = b, Type = ''base_domain''\<rparr>] else [])) \<and>
   (extractSecondLevelDomain X ''a.test.org'' = Some ''test.org'' \<and>
    extractSecondLevelDomain X ''b.test.org'' = Some ''test.org'' \<longrightarrow>
      GetMatches X (NewContextualizer a [] e) ''a.test.org b.test.org'' ''domain'' domain_re =
        [\<lparr>Value = ''test.org'', Type = ''base_domain''\<rparr>,
         \<lparr>Value = ''a.test.org'', Type = ''domain''\<rparr>,
         \<lparr>Value = ''test.org'', Type = ''base_domain''\<rparr>,
         \<lparr>Value = ''b.test.org'', Type = ''domain''\<rparr>]) \<and>
   (extractSecondLevelDomain X ''a.test.org'' = Some ''test.org'' \<and>
    extractSecondLevelDomain X ''b.test.org'' = Some ''test.org'' \<and>
    iteration_order (NewContextualizer a [] e) order \<longrightarrow>
      ExtractAll X (NewContextualizer a [] e) ''a.test.org b.test.org'' order ''base_domain'' =
        Some [\<lparr>Value = ''test.org'', Type = ''base_domain''\<rparr>,
              \<lparr>Value = ''test.org'', Type = ''base_domain''\<rparr>])"
proof (intro conjI impI)
  assume ne: "[] \<notin> set (FindAllString regex text)"
  then have "filter (GetMatches_kept X c ''domain'') (FindAllString regex text) =
      filter (\<lambda>v. \<not> isDomainIgnored c (ToLower v)) (FindAllString regex text)"
    by (intro filter_cong) (auto simp: GetMatches_kept_domain)
  with ne show "GetMatches X c text ''domain'' regex =
        concat (map (\<lambda>v. GetMatches_bases X c ''domain'' v @ [\<lparr>Value = ToLower v, Type = ''domain''\<rparr>])
          (first_by_key {} ToLower
             (filter (\<lambda>v. \<not> isDomainIgnored c (ToLower v)) (FindAllString regex text))))"
    by (simp add: GetMatches_eq map_GetMatches_candidate GetMatches_value_def)
next
  show "GetMatches_bases X c ''domain'' v =
     (if isDomainIgnored c (ToLower v) then []
      else (case extractSecondLevelDomain X (ToLower v) of
              None \<Rightarrow> []
            | Some b \<Rightarrow>
                if b \<noteq> [] \<and> b \<noteq> ToLower v \<and> \<not> isDomainIgnored c b
                then [\<lparr>Value = b, Type = ''base_domain''\<rparr>] else []))"
    by (rule GetMatches_bases_domain)
next
  let ?c = "NewContextualizer a [] e"
  let ?t = "''a.test.org b.test.org''"
  assume etld: "extractSecondLevelDomain X ''a.test.org'' = Some ''test.org'' \<and>
    extractSecondLevelDomain X ''b.test.org'' = Some ''test.org''"
  have fas: "FindAllString domain_re ?t = [''a.test.org'', ''b.test.org'']"
    by (simp add: FindAllString_def domain_pair_matches substring_def)
  have low: "ToLower ''a.test.org'' = ''a.test.org''" "ToLower ''b.test.org'' = ''b.test.org''"
    by (simp_all add: string_simps)
  show "GetMatches X ?c ?t ''domain'' domain_re =
        [\<lparr>Value = ''test.org'', Type = ''base_domain''\<rparr>,
         \<lparr>Value = ''a.test.org'', Type = ''domain''\<rparr>,
         \<lparr>Value = ''test.org'', Type = ''base_domain''\<rparr>,
         \<lparr>Value = ''b.test.org'', Type = ''domain''\<rparr>]"
    using etld
    by (simp add: GetMatches_eq fas GetMatches_candidate_def GetMatches_kept_domain
        isDomainIgnored_no_domains first_by_key_Cons GetMatches_bases_domain low
        GetMatches_value_def)
next
  let ?c = "NewContextualizer a [] e"
  let ?t = "''a.test.org b.test.org''"
  assume a: "extractSecondLevelDomain X ''a.test.org'' = Some ''test.org'' \<and>
    extractSecondLevelDomain X ''b.test.org'' = Some ''test.org'' \<and>
    iteration_order ?c order"
  then have ord: "distinct order" "''domain'' \<in> set order"
    by (simp_all add: iteration_order_def NewContextualizer_dom)
  have re: "Expressions ?c ''domain'' = Some domain_re" "Expressions ?c ''url'' = Some url_re"
      "Expressions ?c ''base_domain'' = None"
    by (simp_all add: NewContextualizer_def)
  have low: "ToLower ''a.test.org'' = ''a.test.org''" "ToLower ''b.test.org'' = ''b.test.org''"
    by (simp_all add: string_simps)
  have ur: "url_ranges X ?c ?t = []"
    by (simp add: url_ranges_def re url_pair_matches)
  have kr: "kind_retained X ?c ?t [] ''domain'' domain_re = [''a.test.org'', ''b.test.org'']"
    by (simp add: kind_retained_def domain_pair_matches isInsideUrl_def ExtractAll_candidate_def
        substring_def ExtractAll_kept_domain isDomainIgnored_no_domains first_by_key_Cons low)
  show "ExtractAll X ?c ?t order ''base_domain'' =
        Some [\<lparr>Value = ''test.org'', Type = ''base_domain''\<rparr>,
              \<lparr>Value = ''test.org'', Type = ''base_domain''\<rparr>]"
    using a
    by (simp add: ExtractAll_at_base_domain ord re ur kr some_list_def ExtractAll_bases_domain
        isDomainIgnored_no_domains low)
qed

text \<open>The theorem with the library instance and no ignore rules.\<close>

theorem base_domain_not_deduplicated_witness:
  "GetMatches stdlib (NewContextualizer False [] []) ''a.test.org b.test.org'' ''domain'' domain_re =
     [\<lparr>Value = ''test.org'', Type = ''base_domain''\<rparr>,
      \<lparr>Value = ''a.test.org'', Type = ''domain''\<rparr>,
      \<lparr>Value = ''test.org'', Type = ''base_domain''\<rparr>,
      \<lparr>Value = ''b.test.org'', Type = ''domain''\<rparr>] \<and>
   ExtractAll stdlib (NewContextualizer False [] []) ''a.test.org b.test.org'' table_order
       ''base_domain'' =
     Some [\<lparr>Value = ''test.org'', Type = ''base_domain''\<rparr>,
           \<lparr>Value = ''test.org'', Type = ''base_domain''\<rparr>] \<and>
   [] \<notin> set (FindAllString domain_re ''a.test.org b.test.org'')"
proof -
  have etld: "extractSecondLevelDomain stdlib ''a.test.org'' = Some ''test.org''"
      "extractSecondLevelDomain stdlib ''b.test.org'' = Some ''test.org''"
    by (simp_all add: extractSecondLevelDomain_def stdlib_def go_EffectiveTLDPlusOne_def)
  have ne: "[] \<notin> set (FindAllString domain_re ''a.test.org b.test.org'')"
    by (simp add: FindAllString_def domain_pair_matches substring_def)
  from base_domain_not_deduplicated [of domain_re "''a.test.org b.test.org''" stdlib
      "NewContextualizer False [] []" "''a.test.org''" False "[]" table_order] etld ne
    table_order_iteration [of False "[]" "[]"]
  show ?thesis
    by blast
qed

section \<open>A URL that occurs twice\<close>

lemma url_twice_matches:
  "FindAllStringIndex url_re ''http://a.com/x http://a.com/x'' = [(0, 14), (15, 29)]"
  by code_simp

lemma domain_twice_matches:
  "FindAllStringIndex domain_re ''http://a.com/x http://a.com/x'' = [(7, 12), (22, 27)]"
  by code_simp

lemma filepath_twice_matches:
  "FindAllStringIndex filepath_re ''http://a.com/x http://a.com/x'' = [(7, 14), (22, 29)]"
  by code_simp

text \<open>
  Claim C10. In the URL pass of \<^verbatim>\<open>ExtractAll\<close> an occurrence that is not ignored and
  whose case-folded value was not seen records its range; an occurrence whose case-folded
  value was seen records nothing. In the loop of a kind a candidate inside a URL range
  leaves \<open>seen\<close> and the results as they are. For the text
  \<^verbatim>\<open>http://a.com/x http://a.com/x\<close> and no ignored domains: the pattern finds the URL
  at \<open>(0, 14)\<close> and at \<open>(15, 29)\<close>, only \<open>(0, 14)\<close> is a claimed range, the
  domain candidate \<^verbatim>\<open>a.com\<close> at \<open>(7, 12)\<close> is inside it and the one at
  \<open>(22, 27)\<close> is not, and the result holds the URL once, the domain match
  \<^verbatim>\<open>a.com\<close> and the file path match \<^verbatim>\<open>a.com/x\<close>.
\<close>

theorem repeated_url_claims_one_range:
  "(\<not> url_ignored X c (ExtractAll_url_candidate text idx) \<and>
    \<not> seen (ToLower (ExtractAll_url_candidate text idx)) \<longrightarrow>
      ExtractAll_url_body X c text (urlRanges, results, seen) idx =
        (urlRanges @ [idx],
         append_result results ''url'' \<lparr>Value = ExtractAll_url_candidate text idx, Type = ''url''\<rparr>,
         seen(ToLower (ExtractAll_url_candidate text idx) := True))) \<and>
   (seen (ToLower (ExtractAll_url_candidate text idx)) \<longrightarrow>
      ExtractAll_url_body X c text (urlRanges, results, seen) idx = (urlRanges, results, seen)) \<and>
   (isInsideUrl urlRanges idx \<longrightarrow>
      ExtractAll_body X c text urlRanges kind (seen, results) idx = (seen, results)) \<and>
   (iteration_order (NewContextualizer a [] e) order \<longrightarrow>
      FindAllStringIndex url_re ''http://a.com/x http://a.com/x'' = [(0, 14), (15, 29)] \<and>
      fst (ExtractAll_urls X (NewContextualizer a [] e) ''http://a.com/x http://a.com/x'') = [(0, 14)] \<and>
      FindAllStringIndex domain_re ''http://a.com/x http://a.com/x'' = [(7, 12), (22, 27)] \<and>
      isInsideUrl [(0, 14)] (7, 12) \<and> \<not> isInsideUrl [(0, 14)] (22, 27) \<and>
      ExtractAll X (NewContextualizer a [] e) ''http://a.com/x http://a.com/x'' order ''url'' =
        Some [\<lparr>Value = ''http://a.com/x'', Type = ''url''\<rparr>] \<and>
      ExtractAll X (NewContextualizer a [] e) ''http://a.com/x http://a.com/x'' order ''domain'' =
        Some [\<lparr>Value = ''a.com'', Type = ''domain''\<rparr>] \<and>
      ExtractAll X (NewContextualizer a [] e) ''http://a.com/x http://a.com/x'' order ''filepath'' =
        Some [\<lparr>Value = ''a.com/x'', Type = ''filepath''\<rparr>])"
proof (intro conjI impI)
  assume "\<not> url_ignored X c (ExtractAll_url_candidate text idx) \<and>
    \<not> seen (ToLower (ExtractAll_url_candidate text idx))"
  then show "ExtractAll_url_body X c text (urlRanges, results, seen) idx =
        (urlRanges @ [idx],
         append_result results ''url'' \<lparr>Value = ExtractAll_url_candidate text idx, Type = ''url''\<rparr>,
         seen(ToLower (ExtractAll_url_candidate text idx) := True))"
    by (simp add: ExtractAll_url_body_eq Let_def add_all_Cons)
next
  assume "seen (ToLower (ExtractAll_url_candidate text idx))"
  then show "ExtractAll_url_body X c text (urlRanges, results, seen) idx = (urlRanges, results, seen)"
    by (simp add: ExtractAll_url_body_eq Let_def)
next
  assume "isInsideUrl urlRanges idx"
  then show "ExtractAll_body X c text urlRanges kind (seen, results) idx = (seen, results)"
    by (simp add: ExtractAll_body_eq Let_def)
next
  show "FindAllStringIndex url_re ''http://a.com/x http://a.com/x'' = [(0, 14), (15, 29)]"
    by (rule url_twice_matches)
  show "FindAllStringIndex domain_re ''http://a.com/x http://a.com/x'' = [(7, 12), (22, 27)]"
    by (rule domain_twice_matches)
  show "isInsideUrl [(0, 14)] (7, 12)" "\<not> isInsideUrl [(0, 14)] (22, 27)"
    by (simp_all add: isInsideUrl_def)
next
  let ?c = "NewContextualizer a [] e"
  let ?t = "''http://a.com/x http://a.com/x''"
  assume "iteration_order ?c order"
  then have ord: "distinct order" "''domain'' \<in> set order" "''filepath'' \<in> set order"
    by (simp_all add: iteration_order_def NewContextualizer_dom)
  have re: "Expressions ?c ''domain'' = Some domain_re" "Expressions ?c ''url'' = Some url_re"
      "Expressions ?c ''filepath'' = Some filepath_re"
    by (simp_all add: NewContextualizer_def)
  have cand: "ExtractAll_url_candidate ?t (0, 14) = ''http://a.com/x''"
      "ExtractAll_url_candidate ?t (15, 29) = ''http://a.com/x''"
    by (simp_all add: ExtractAll_url_candidate_def string_simps)
  have ur: "url_ranges X ?c ?t = [(0, 14)]"
    by (simp add: url_ranges_def re url_twice_matches url_ignored_no_domains cand
        first_by_key_Cons)
  show "fst (ExtractAll_urls X ?c ?t) = [(0, 14)]"
    by (simp add: ExtractAll_urls_eq ur)
  show "ExtractAll X ?c ?t order ''url'' = Some [\<lparr>Value = ''http://a.com/x'', Type = ''url''\<rparr>]"
    by (simp add: ExtractAll_at_url url_matches_def ur cand some_list_def)
  have low: "ToLower ''a.com'' = ''a.com''" "ToLower ''a.com/x'' = ''a.com/x''"
    by (simp_all add: string_simps)
  have "kind_retained X ?c ?t [(0, 14)] ''domain'' domain_re = [''a.com'']"
    by (simp add: kind_retained_def domain_twice_matches isInsideUrl_def ExtractAll_candidate_def
        substring_def ExtractAll_kept_domain isDomainIgnored_no_domains first_by_key_Cons)
  then show "ExtractAll X ?c ?t order ''domain'' = Some [\<lparr>Value = ''a.com'', Type = ''domain''\<rparr>]"
    by (simp add: ExtractAll_at_kind ord re ur some_list_def)
  have "kind_retained X ?c ?t [(0, 14)] ''filepath'' filepath_re = [''a.com/x'']"
    by (simp add: kind_retained_def filepath_twice_matches isInsideUrl_def ExtractAll_candidate_def
        substring_def ExtractAll_kept_filepath low HasPrefix_def first_by_key_Cons)
  then show "ExtractAll X ?c ?t order ''filepath'' =
      Some [\<lparr>Value = ''a.com/x'', Type = ''filepath''\<rparr>]"
    by (simp add: ExtractAll_at_kind ord re ur some_list_def)
qed

text \<open>
  The theorem with the library instance: the first occurrence of the URL, the second,
  and the domain candidate inside the first.
\<close>

theorem repeated_url_claims_one_range_witness:
  "ExtractAll_url_body stdlib (NewContextualizer False [] []) ''http://a.com/x http://a.com/x''
       ([], Map.empty, \<lambda>k. False) (0, 14) =
     ([(0, 14)], [''url'' \<mapsto> [\<lparr>Value = ''http://a.com/x'', Type = ''url''\<rparr>]],
      (\<lambda>k. False)(''http://a.com/x'' := True)) \<and>
   ExtractAll_url_body stdlib (NewContextualizer False [] []) ''http://a.com/x http://a.com/x''
       ([(0, 14)], [''url'' \<mapsto> [\<lparr>Value = ''http://a.com/x'', Type = ''url''\<rparr>]],
        (\<lambda>k. False)(''http://a.com/x'' := True)) (15, 29) =
     ([(0, 14)], [''url'' \<mapsto> [\<lparr>Value = ''http://a.com/x'', Type = ''url''\<rparr>]],
      (\<lambda>k. False)(''http://a.com/x'' := True)) \<and>
   ExtractAll_body stdlib (NewContextualizer False [] []) ''http://a.com/x http://a.com/x''
       [(0, 14)] ''domain'' (\<lambda>k. False, Map.empty) (7, 12) = (\<lambda>k. False, Map.empty) \<and>
   ExtractAll stdlib (NewContextualizer False [] []) ''http://a.com/x http://a.com/x'' table_order
       ''url'' = Some [\<lparr>Value = ''http://a.com/x'', Type = ''url''\<rparr>] \<and>
   ExtractAll stdlib (NewContextualizer False [] []) ''http://a.com/x http://a.com/x'' table_order
       ''domain'' = Some [\<lparr>Value = ''a.com'', Type = ''domain''\<rparr>] \<and>
   ExtractAll stdlib (NewContextualizer False [] []) ''http://a.com/x http://a.com/x'' table_order
       ''filepath'' = Some [\<lparr>Value = ''a.com/x'', Type = ''filepath''\<rparr>]"
proof -
  let ?c = "NewContextualizer False [] []"
  let ?t = "''http://a.com/x http://a.com/x''"
  let ?seen = "(\<lambda>k. False)(''http://a.com/x'' := True)"
  let ?res = "[''url'' \<mapsto> [\<lparr>Value = ''http://a.com/x'', Type = ''url''\<rparr>]]"
  have cand: "ExtractAll_url_candidate ?t (0, 14) = ''http://a.com/x''"
      "ExtractAll_url_candidate ?t (15, 29) = ''http://a.com/x''"
    by (simp_all add: ExtractAll_url_candidate_def string_simps)
  have low: "ToLower ''http://a.com/x'' = ''http://a.com/x''"
    by (simp add: string_simps)
  have ok: "\<not> url_ignored stdlib ?c v" for v
    by (simp add: url_ignored_no_domains)
  have ins: "isInsideUrl [(0, 14)] (7, 12)"
    by (simp add: isInsideUrl_def)
  note first = repeated_url_claims_one_range [of stdlib ?c ?t "(0, 14)" "\<lambda>k. False" "[]" Map.empty
      "''domain''" False "[]" table_order]
  note second = repeated_url_claims_one_range [of stdlib ?c ?t "(15, 29)" ?seen "[(0, 14)]" ?res
      "''domain''" False "[]" table_order]
  note inside = repeated_url_claims_one_range [of stdlib ?c ?t "(7, 12)" "\<lambda>k. False" "[(0, 14)]"
      Map.empty "''domain''" False "[]" table_order]
  from first [THEN conjunct1] ok cand low
  have u1: "ExtractAll_url_body stdlib ?c ?t ([], Map.empty, \<lambda>k. False) (0, 14) =
      ([(0, 14)], ?res, ?seen)"
    by (simp add: append_result_def)
  from second [THEN conjunct2, THEN conjunct1] cand low
  have u2: "ExtractAll_url_body stdlib ?c ?t ([(0, 14)], ?res, ?seen) (15, 29) =
      ([(0, 14)], ?res, ?seen)"
    by simp
  from inside [THEN conjunct2, THEN conjunct2, THEN conjunct1] ins
  have k1: "ExtractAll_body stdlib ?c ?t [(0, 14)] ''domain'' (\<lambda>k. False, Map.empty) (7, 12) =
      (\<lambda>k. False, Map.empty)"
    by simp
  from first [THEN conjunct2, THEN conjunct2, THEN conjunct2] table_order_iteration [of False "[]" "[]"]
  have rest: "ExtractAll stdlib ?c ?t table_order ''url'' =
        Some [\<lparr>Value = ''http://a.com/x'', Type = ''url''\<rparr>] \<and>
      ExtractAll stdlib ?c ?t table_order ''domain'' = Some [\<lparr>Value = ''a.com'', Type = ''domain''\<rparr>] \<and>
      ExtractAll stdlib ?c ?t table_order ''filepath'' =
        Some [\<lparr>Value = ''a.com/x'', Type = ''filepath''\<rparr>]"
    by blast
  from u1 u2 k1 rest show ?thesis
    by blast
qed

end
